theory Spec2Isabelle
  imports Main "HOL-Library.Multiset"
begin

section \<open>pscan: a concurrent TCP connect scanner\<close>

text \<open>
  A shallow embedding of \<^verbatim>\<open>pscan.go\<close>. Go strings are byte sequences and are modelled
  as \<^typ>\<open>string\<close> (lists of 8-bit characters); Go's \<^verbatim>\<open>int\<close> is the 64-bit signed
  integer and is modelled as \<^typ>\<open>int\<close>, with the range written out where it matters.
\<close>

subsection \<open>The Go library functions the program calls\<close>

text \<open>
  \<^verbatim>\<open>strings.Split(s, sep)\<close> for a separator of one byte: the substrings between the
  occurrences of the separator, one more than there are occurrences.
\<close>

fun splitOn :: "char \<Rightarrow> string \<Rightarrow> string list" where
  "splitOn sep [] = [[]]"
| "splitOn sep (c # cs) =
     (if c = sep then [] # splitOn sep cs
      else (case splitOn sep cs of
              [] \<Rightarrow> [[c]]
            | t # ts \<Rightarrow> (c # t) # ts))"

definition isDigit :: "char \<Rightarrow> bool" where
  "isDigit c = (48 \<le> (of_char c :: nat) \<and> (of_char c :: nat) \<le> 57)"

definition digitVal :: "char \<Rightarrow> nat" where
  "digitVal c = of_char c - 48"

text \<open>The accumulation \<^verbatim>\<open>n = n*10 + int(ch - '0')\<close> of the digit loop.\<close>

definition decimalValue :: "string \<Rightarrow> nat" where
  "decimalValue ds = foldl (\<lambda>n ch. n * 10 + digitVal ch) 0 ds"

definition maxInt64 :: int where
  "maxInt64 = 9223372036854775807"

definition minInt64 :: int where
  "minInt64 = - 9223372036854775808"

text \<open>
  \<^verbatim>\<open>strconv.Atoi\<close>: an optional sign, then one or more decimal digits, and the value
  must fit the 64-bit \<^verbatim>\<open>int\<close>. Every other input is an error (syntax or range); the
  program only tests \<^verbatim>\<open>err != nil\<close>, so the error is \<open>None\<close>.
\<close>

definition Atoi :: "string \<Rightarrow> int option" where
  "Atoi s =
     (let neg = (case s of [] \<Rightarrow> False | c # _ \<Rightarrow> c = CHR ''-'');
          body = (case s of [] \<Rightarrow> [] | c # r \<Rightarrow> if c = CHR ''-'' \<or> c = CHR ''+'' then r else s)
      in if body = [] \<or> \<not> list_all isDigit body then None
         else let v = (if neg then - int (decimalValue body) else int (decimalValue body))
              in if v < minInt64 \<or> maxInt64 < v then None else Some v)"

text \<open>
  The verb \<^verbatim>\<open>%d\<close> of \<^verbatim>\<open>fmt\<close>: the decimal digits of the number, most significant
  first, after a minus sign when it is negative.
\<close>

definition digitChar :: "nat \<Rightarrow> char" where
  "digitChar d = ''0123456789'' ! d"

fun showNat :: "nat \<Rightarrow> string" where
  "showNat n = (if n < 10 then [digitChar n] else showNat (n div 10) @ [digitChar (n mod 10)])"

declare showNat.simps [simp del]

definition showInt :: "int \<Rightarrow> string" where
  "showInt i = (if i < 0 then CHR ''-'' # showNat (nat (- i)) else showNat (nat i))"

subsection \<open>The port range resolver\<close>

text \<open>
  \<^verbatim>\<open>parsePortRange\<close> returns \<^verbatim>\<open>(start, end, nil)\<close> or \<^verbatim>\<open>(0, 0, err)\<close>; the model
  returns the pair on the right and the text of the error on the left.
\<close>

definition parsePortRange :: "string \<Rightarrow> string + (int \<times> int)" where
  "parsePortRange rangeStr =
     (let ports = splitOn CHR ''-'' rangeStr in
      if length ports \<noteq> 2 then Inl ''invalid port range format, use: startPort-endPort''
      else
        (case Atoi (ports ! 0) of
           None \<Rightarrow> Inl (''invalid start port: '' @ ports ! 0)
         | Some startPort \<Rightarrow>
             (case Atoi (ports ! 1) of
                None \<Rightarrow> Inl (''invalid end port: '' @ ports ! 1)
              | Some endPort \<Rightarrow>
                  if startPort < 1 then Inl ''start port must be 1 or greater''
                  else if endPort \<le> startPort then Inl ''end port must be greater than start port''
                  else if endPort > 65535 then Inl ''end port must be less than or equal to 65535''
                  else Inr (startPort, endPort))))"

record ScanOptions =
  Target :: string
  StartPort :: int
  EndPort :: int
  Timeout :: int
  Threads :: int
  AllPorts :: bool
  CommonOnly :: bool
  Verbose :: bool

text \<open>
  The block of \<^verbatim>\<open>main\<close> that sets the port range from the flags. The left result is
  the message printed before \<^verbatim>\<open>os.Exit(1)\<close>; the right result is the options that
  \<^verbatim>\<open>runPortScan\<close> receives.
\<close>

definition setPortRange :: "ScanOptions \<Rightarrow> string \<Rightarrow> string + ScanOptions" where
  "setPortRange options portRange =
     (if AllPorts options then Inr (options\<lparr>StartPort := 1, EndPort := 65535\<rparr>)
      else if CommonOnly options then Inr (options\<lparr>StartPort := 1, EndPort := 1024\<rparr>)
      else
        (case parsePortRange portRange of
           Inl err \<Rightarrow> Inl (''Error with port range: '' @ err @ [CHR 0x0A])
         | Inr (startPort, endPort) \<Rightarrow>
             Inr (options\<lparr>StartPort := startPort, EndPort := endPort\<rparr>)))"

subsection \<open>Service names\<close>

definition commonPorts :: "(int \<times> string) list" where
  "commonPorts =
     [(20, ''FTP-data''), (21, ''FTP''), (22, ''SSH''), (23, ''Telnet''), (25, ''SMTP''),
      (53, ''DNS''), (80, ''HTTP''), (110, ''POP3''), (111, ''RPC''), (135, ''RPC''),
      (139, ''NetBIOS''), (143, ''IMAP''), (443, ''HTTPS''), (445, ''SMB''), (993, ''IMAPS''),
      (995, ''POP3S''), (1723, ''PPTP''), (3306, ''MySQL''), (3389, ''RDP''), (5900, ''VNC''),
      (8080, ''HTTP-Proxy'')]"

definition getServiceName :: "int \<Rightarrow> string" where
  "getServiceName port =
     (case map_of commonPorts port of
        Some service \<Rightarrow> service
      | None \<Rightarrow> [])"

subsection \<open>White space as Go trims it\<close>

text \<open>
  \<^verbatim>\<open>strings.TrimSpace\<close> removes the leading and the trailing white space of a string
  "as defined by Unicode": the string is read as UTF-8, rune by rune, from each end.
  A rune is a natural number; a byte that starts no valid encoding reads as the rune
  \<^verbatim>\<open>utf8.RuneError\<close> of width 1, which is not white space.
\<close>

definition runeError :: nat where
  "runeError = 65533"

text \<open>\<^verbatim>\<open>unicode.IsSpace\<close>: the code points with the property White_Space.\<close>

definition isSpaceRune :: "nat \<Rightarrow> bool" where
  "isSpaceRune r =
     ((9 \<le> r \<and> r \<le> 13) \<or> r = 32 \<or> r = 133 \<or> r = 160 \<or> r = 5760 \<or>
      (8192 \<le> r \<and> r \<le> 8202) \<or> r = 8232 \<or> r = 8233 \<or> r = 8239 \<or> r = 8287 \<or>
      r = 12288)"

text \<open>
  \<^verbatim>\<open>utf8.DecodeRuneInString\<close>: the first rune of the string and its width in bytes.
  The lead byte fixes the width and the range accepted for the second byte (which
  excludes overlong encodings, surrogates and values above U+10FFFF).
\<close>

definition decodeRune :: "string \<Rightarrow> nat \<times> nat" where
  "decodeRune s =
     (case s of
        [] \<Rightarrow> (runeError, 0)
      | c0 # _ \<Rightarrow>
          let b0 = (of_char c0 :: nat) in
          if b0 < 128 then (b0, 1)
          else if b0 < 194 \<or> 244 < b0 then (runeError, 1)
          else
            let sz = (if b0 < 224 then 2 else if b0 < 240 then 3 else 4 :: nat);
                lo = (if b0 = 224 then 160 else if b0 = 240 then 144 else 128 :: nat);
                hi = (if b0 = 237 then 159 else if b0 = 244 then 143 else 191 :: nat)
            in
              if length s < sz then (runeError, 1)
              else
                let b1 = (of_char (s ! 1) :: nat) in
                if b1 < lo \<or> hi < b1 then (runeError, 1)
                else if sz \<le> 2 then ((b0 mod 32) * 64 + b1 mod 64, 2)
                else
                  let b2 = (of_char (s ! 2) :: nat) in
                  if b2 < 128 \<or> 191 < b2 then (runeError, 1)
                  else if sz \<le> 3 then ((b0 mod 16) * 4096 + (b1 mod 64) * 64 + b2 mod 64, 3)
                  else
                    let b3 = (of_char (s ! 3) :: nat) in
                    if b3 < 128 \<or> 191 < b3 then (runeError, 1)
                    else ((b0 mod 8) * 262144 + (b1 mod 64) * 4096 + (b2 mod 64) * 64
                            + b3 mod 64, 4))"

text \<open>\<^verbatim>\<open>utf8.RuneStart\<close>: the byte is not a continuation byte.\<close>

definition runeStart :: "char \<Rightarrow> bool" where
  "runeStart c = ((of_char c :: nat) div 64 \<noteq> 2)"

text \<open>
  The backwards search of \<^verbatim>\<open>utf8.DecodeLastRuneInString\<close>:
  \<^verbatim>\<open>for start--; start >= lim; start-- { if RuneStart(s[start]) { break } }\<close>,
  entered at \<open>i\<close>; the result is the value of \<^verbatim>\<open>start\<close> after the loop.
\<close>

function backToRuneStart :: "string \<Rightarrow> int \<Rightarrow> int \<Rightarrow> int" where
  "backToRuneStart s i lim =
     (if i < lim then i
      else if runeStart (s ! nat i) then i
      else backToRuneStart s (i - 1) lim)"
  by pat_completeness auto
termination
  by (relation "measure (\<lambda>(s, i, lim). nat (i - lim + 1))") auto

declare backToRuneStart.simps [simp del]

definition decodeLastRune :: "string \<Rightarrow> nat \<times> nat" where
  "decodeLastRune s =
     (let e = int (length s) in
      if e = 0 then (runeError, 0)
      else
        let r = (of_char (s ! nat (e - 1)) :: nat) in
        if r < 128 then (r, 1)
        else
          let lim = max (e - 4) 0;
              start0 = backToRuneStart s (e - 2) lim;
              start = (if start0 < 0 then 0 else start0);
              (r, wid) = decodeRune (drop (nat start) s)
          in if start + int wid \<noteq> e then (runeError, 1) else (r, wid))"

text \<open>
  \<^verbatim>\<open>strings.TrimLeftFunc(s, unicode.IsSpace)\<close>: the loop of \<^verbatim>\<open>indexFunc\<close> ranges over
  the runes of the string and stops at the first one that is not white space; the result
  is the string from there on, and empty when there is none.
\<close>

function trimLeftSpace :: "string \<Rightarrow> string" where
  "trimLeftSpace s =
     (if s = [] then []
      else
        (case decodeRune s of
           (r, wid) \<Rightarrow> if isSpaceRune r then trimLeftSpace (drop wid s) else s))"
  by pat_completeness auto
termination
proof (relation "measure length")
  show "wf (measure length)"
    by simp
next
  fix s :: string and r wid :: nat
  assume "s \<noteq> []" and d: "(r, wid) = decodeRune s"
  have "0 < snd (decodeRune s)"
    using \<open>s \<noteq> []\<close> by (cases s) (simp_all add: decodeRune_def Let_def)
  then have "0 < wid"
    using d by (metis snd_conv)
  then show "(drop wid s, s) \<in> measure length"
    using \<open>s \<noteq> []\<close> by simp
qed

declare trimLeftSpace.simps [simp del]

text \<open>
  The loop of \<^verbatim>\<open>lastIndexFunc\<close>, entered with \<open>i\<close> bytes still to look at: the index
  of the last rune that is not white space, or \<open>-1\<close>.
\<close>

function lastIndexNotSpace :: "string \<Rightarrow> nat \<Rightarrow> int" where
  "lastIndexNotSpace s i =
     (if i = 0 then - 1
      else
        (case decodeLastRune (take i s) of
           (r, wid) \<Rightarrow>
             if \<not> isSpaceRune r then int (i - wid) else lastIndexNotSpace s (i - wid)))"
  by pat_completeness auto
termination
proof (relation "measure snd")
  show "wf (measure snd)"
    by simp
next
  fix s :: string and i r wid :: nat
  assume "i \<noteq> 0" and d: "(r, wid) = decodeLastRune (take i s)" and sp: "\<not> \<not> isSpaceRune r"
  have dr: "a = runeError" if "decodeRune t = (a, 0)" for t a
    using that by (cases t) (simp_all add: decodeRune_def Let_def split: if_splits)
  have "wid \<noteq> 0"
  proof
    assume "wid = 0"
    then have "decodeLastRune (take i s) = (r, 0)"
      using d by simp
    then have "r = runeError"
      unfolding decodeLastRune_def Let_def
      by (auto split: if_splits prod.splits dest: dr)
    then show False
      using sp by (simp add: isSpaceRune_def runeError_def)
  qed
  then show "((s, i - wid), (s, i)) \<in> measure snd"
    using \<open>i \<noteq> 0\<close> by simp
qed

declare lastIndexNotSpace.simps [simp del]

text \<open>\<^verbatim>\<open>strings.TrimRightFunc(s, unicode.IsSpace)\<close>.\<close>

definition trimRightSpace :: "string \<Rightarrow> string" where
  "trimRightSpace s =
     (let i = lastIndexNotSpace s (length s);
          j = (if 0 \<le> i \<and> 128 \<le> (of_char (s ! nat i) :: nat)
               then i + int (snd (decodeRune (drop (nat i) s)))
               else i + 1)
      in take (nat j) s)"

text \<open>\<^verbatim>\<open>strings.TrimSpace\<close>, that is \<^verbatim>\<open>TrimFunc(s, unicode.IsSpace)\<close>.\<close>

definition TrimSpace :: "string \<Rightarrow> string" where
  "TrimSpace s = trimRightSpace (trimLeftSpace s)"

text \<open>\<^verbatim>\<open>strings.HasPrefix\<close> and \<^verbatim>\<open>strings.Contains\<close>.\<close>

fun HasPrefix :: "string \<Rightarrow> string \<Rightarrow> bool" where
  "HasPrefix s [] = True"
| "HasPrefix [] (p # ps) = False"
| "HasPrefix (c # cs) (p # ps) = (c = p \<and> HasPrefix cs ps)"

fun Contains :: "string \<Rightarrow> string \<Rightarrow> bool" where
  "Contains [] substr = (substr = [])"
| "Contains (c # cs) substr = (HasPrefix (c # cs) substr \<or> Contains cs substr)"

subsection \<open>The network, as the probe sees it\<close>

text \<open>
  A connection answers a read with the bytes it delivers and the error, if any, of
  \<^verbatim>\<open>conn.Read\<close>; what it answers may depend on what was written to it before. The
  operations a probe performs on its connection are recorded in order.
\<close>

type_synonym conn = "string list \<Rightarrow> string \<times> string option"

datatype conn_op = SetReadDeadline nat | Write string | Read nat | Close

text \<open>
  \<^verbatim>\<open>dialer.Dial("tcp", address)\<close> with its timeout in milliseconds: a connection, or
  an error with its text.
\<close>

datatype dial_result = Connected conn | DialError string

type_synonym network = "string \<Rightarrow> int \<Rightarrow> dial_result"

subsection \<open>Banner capture\<close>

definition httpHead :: string where
  "httpHead = ''HEAD / HTTP/1.0'' @ [CHR 0x0D, CHR 0x0A, CHR 0x0D, CHR 0x0A]"

definition maxLen :: nat where
  "maxLen = 80"

text \<open>
  \<^verbatim>\<open>getBanner\<close> returns the banner; the model returns with it the operations performed
  on the connection. The read deadline is in milliseconds, the buffer has 1024 bytes, and
  the read puts at most that many bytes into it.
\<close>

definition getBanner :: "conn \<Rightarrow> int \<Rightarrow> string \<times> conn_op list" where
  "getBanner c port =
     (let written = (if port = 80 \<or> port = 443 \<or> port = 8080 then [httpHead] else []);
          ops = [SetReadDeadline 1000] @ map Write written @ [Read 1024]
      in
        (case c written of
           (_, Some err) \<Rightarrow> ([], ops)
         | (bytes, None) \<Rightarrow>
             let banner = TrimSpace (take 1024 bytes);
                 lines = splitOn (CHR 0x0A) banner;
                 banner = (if length lines > 0 then TrimSpace (lines ! 0) else banner);
                 banner = (if length banner > maxLen then take maxLen banner @ ''...''
                           else banner)
             in (banner, ops)))"

subsection \<open>The probe of one port\<close>

text \<open>
  \<^verbatim>\<open>scanPort\<close> prints lines and returns nothing; the model returns the lines it prints,
  one per call of \<^verbatim>\<open>fmt.Printf\<close>, and the operations on the connection, closed last by
  the deferred \<^verbatim>\<open>conn.Close()\<close>. The marker before a banner is the UTF-8 text of the
  source.
\<close>

definition bannerMark :: string where
  "bannerMark = ''  '' @ [CHR 0xE2, CHR 0x94, CHR 0x94, CHR 0xE2, CHR 0x94, CHR 0x80] @ '' Banner: ''"

definition scanPort :: "network \<Rightarrow> ScanOptions \<Rightarrow> int \<Rightarrow> string list \<times> conn_op list" where
  "scanPort net options port =
     (let address = Target options @ '':'' @ showInt port in
      case net address (Timeout options) of
        Connected c \<Rightarrow>
          let service = getServiceName port;
              openLine =
                (if service \<noteq> []
                 then ''Port '' @ showInt port @ ''/tcp open - '' @ service @ [CHR 0x0A]
                 else ''Port '' @ showInt port @ ''/tcp open'' @ [CHR 0x0A])
          in
            if Verbose options then
              (case getBanner c port of
                 (banner, ops) \<Rightarrow>
                   (if banner \<noteq> []
                    then ([openLine, bannerMark @ banner @ [CHR 0x0A]], ops @ [Close])
                    else ([openLine], ops @ [Close])))
            else ([openLine], [Close])
      | DialError err \<Rightarrow>
          if Verbose options then
            (if Contains err ''timeout''
             then ([''Port '' @ showInt port @ ''/tcp filtered (timeout)'' @ [CHR 0x0A]], [])
             else if Contains err ''refused''
             then ([''Port '' @ showInt port @ ''/tcp closed (connection refused)'' @ [CHR 0x0A]], [])
             else ([''Port '' @ showInt port @ ''/tcp closed ('' @ err @ '')'' @ [CHR 0x0A]], []))
          else ([], []))"

subsection \<open>The scan engine\<close>

text \<open>
  Go's \<^verbatim>\<open>%\<close> truncates: the remainder has the sign of the dividend. Its increment
  wraps around at the largest 64-bit integer.
\<close>

definition goRem :: "int \<Rightarrow> int \<Rightarrow> int" where
  "goRem a b = sgn a * (\<bar>a\<bar> mod \<bar>b\<bar>)"

definition incInt :: "int \<Rightarrow> int" where
  "incInt p = (if p = maxInt64 then minInt64 else p + 1)"

text \<open>
  \<^verbatim>\<open>runPortScan\<close> starts one goroutine per port and synchronises with them through a
  \<^verbatim>\<open>sync.WaitGroup\<close>. The model is a transition system. The main goroutine is at one of
  these places: about to test the loop condition for a port; blocked in the
  \<^verbatim>\<open>wg.Wait()\<close> inside the loop, after the port given; blocked in the \<^verbatim>\<open>wg.Wait()\<close>
  after the loop; returned, after printing the completion line; or stopped by the run-time
  panic of an integer division by zero.
\<close>

datatype place = Loop int | Waiting int | FinalWait | Done | Panicked

text \<open>
  The state holds the place of the main goroutine, the probes started and not yet
  finished (their number is the counter of the wait group), the ports in the order in
  which their probes were started and in the order in which they finished, the lines
  printed and the operations performed on each connection. The lines of a probe are
  recorded together, when the probe ends. In the program a probe of an open port prints
  its open line before it reads the banner, so the lines of probes that run together can
  interleave in the output; the list records which lines are printed and the order of
  the lines of each probe, not the order of the lines of different probes.
\<close>

record ScanState =
  place :: place
  inflight :: "int list"
  dispatched :: "int list"
  finished :: "int list"
  printed :: "string list"
  connOps :: "(int \<times> conn_op list) list"

text \<open>The state when the loop is entered: the header lines are printed.\<close>

definition initState :: "ScanOptions \<Rightarrow> ScanState" where
  "initState options =
     \<lparr>place = Loop (StartPort options),
      inflight = [],
      dispatched = [],
      finished = [],
      printed =
        [''Starting port scan on '' @ Target options @ '' (ports '' @ showInt (StartPort options)
           @ ''-'' @ showInt (EndPort options) @ '')'' @ [CHR 0x0A]]
        @ (if Verbose options
           then [''Using '' @ showInt (Threads options) @ '' threads with ''
                   @ showInt (Timeout options) @ ''ms timeout'' @ [CHR 0x0A]]
           else []),
      connOps = []\<rparr>"

text \<open>
  Two kinds of events are interleaved: a step of the main goroutine, and the end of the
  probe of a port, which prints its lines and calls \<^verbatim>\<open>wg.Done()\<close>. A step of the main
  goroutine in the loop is one iteration up to its next blocking point: the test
  \<^verbatim>\<open>port <= options.EndPort\<close>, \<^verbatim>\<open>wg.Add(1)\<close>, the \<^verbatim>\<open>go\<close> statement, and the test
  \<^verbatim>\<open>port%options.Threads == 0\<close>. A \<^verbatim>\<open>wg.Wait()\<close> returns only when no probe is in
  flight. An event that cannot happen in a state gives \<open>None\<close>. A probe that was started
  can end at any place of the main goroutine, also after the panic, until the process has
  exited. A probe is in flight
  from its \<^verbatim>\<open>go\<close> statement to its \<^verbatim>\<open>wg.Done()\<close>; since the end of a probe only takes
  a port out of flight, the states between the statements of one iteration have no more
  probes in flight than the state after it.
\<close>

datatype event = MainStep | ProbeEnd int

definition mainStep :: "ScanOptions \<Rightarrow> ScanState \<Rightarrow> ScanState option" where
  "mainStep options s =
     (case place s of
        Loop port \<Rightarrow>
          if port \<le> EndPort options then
            let s' = s\<lparr>inflight := inflight s @ [port], dispatched := dispatched s @ [port]\<rparr> in
            if Threads options = 0 then Some (s'\<lparr>place := Panicked\<rparr>)
            else if goRem port (Threads options) = 0 then Some (s'\<lparr>place := Waiting port\<rparr>)
            else Some (s'\<lparr>place := Loop (incInt port)\<rparr>)
          else Some (s\<lparr>place := FinalWait\<rparr>)
      | Waiting port \<Rightarrow>
          if inflight s = [] then Some (s\<lparr>place := Loop (incInt port)\<rparr>) else None
      | FinalWait \<Rightarrow>
          if inflight s = []
          then Some (s\<lparr>place := Done, printed := printed s @ [''Scan complete!'' @ [CHR 0x0A]]\<rparr>)
          else None
      | Done \<Rightarrow> None
      | Panicked \<Rightarrow> None)"

definition probeEnd :: "network \<Rightarrow> ScanOptions \<Rightarrow> int \<Rightarrow> ScanState \<Rightarrow> ScanState option" where
  "probeEnd net options port s =
     (if port \<in> set (inflight s) then
        (case scanPort net options port of
           (lines, ops) \<Rightarrow>
             Some (s\<lparr>inflight := remove1 port (inflight s),
                     finished := finished s @ [port],
                     printed := printed s @ lines,
                     connOps := connOps s @ [(port, ops)]\<rparr>))
      else None)"

fun step :: "network \<Rightarrow> ScanOptions \<Rightarrow> event \<Rightarrow> ScanState \<Rightarrow> ScanState option" where
  "step net options MainStep s = mainStep options s"
| "step net options (ProbeEnd port) s = probeEnd net options port s"

text \<open>A schedule is a list of events; it runs from a state when each event can happen.\<close>

fun run :: "network \<Rightarrow> ScanOptions \<Rightarrow> event list \<Rightarrow> ScanState \<Rightarrow> ScanState option" where
  "run net options [] s = Some s"
| "run net options (e # es) s =
     (case step net options e s of
        None \<Rightarrow> None
      | Some s' \<Rightarrow> run net options es s')"

text \<open>The states \<^verbatim>\<open>runPortScan\<close> can be in.\<close>

definition reachable :: "network \<Rightarrow> ScanOptions \<Rightarrow> ScanState \<Rightarrow> bool" where
  "reachable net options s = (\<exists>es. run net options es (initState options) = Some s)"

subsection \<open>The banner post-processing, as the specification words it\<close>

text \<open>
  The first line of a text is what precedes its first newline; a text longer than the
  limit is cut to the limit and an ellipsis is appended. These are compared below with
  what \<^const>\<open>getBanner\<close> computes.
\<close>

definition firstLine :: "string \<Rightarrow> string" where
  "firstLine s = takeWhile (\<lambda>c. c \<noteq> CHR 0x0A) s"

definition truncateTo :: "nat \<Rightarrow> string \<Rightarrow> string" where
  "truncateTo n s = (if n < length s then take n s @ ''...'' else s)"

definition bannerOf :: "string \<Rightarrow> string" where
  "bannerOf raw = truncateTo 80 (TrimSpace (firstLine (TrimSpace raw)))"

text \<open>
  The white space of ASCII: tab, newline, vertical tab, form feed, carriage return and
  space. A text is ASCII when each of its bytes is below 128.
\<close>

definition asciiSpace :: "char \<Rightarrow> bool" where
  "asciiSpace c =
     (c = CHR 0x09 \<or> c = CHR 0x0A \<or> c = CHR 0x0B \<or> c = CHR 0x0C \<or> c = CHR 0x0D \<or> c = CHR 0x20)"

definition isAscii :: "string \<Rightarrow> bool" where
  "isAscii s = list_all (\<lambda>c. (of_char c :: nat) < 128) s"

definition trimAscii :: "string \<Rightarrow> string" where
  "trimAscii s = rev (dropWhile asciiSpace (rev (dropWhile asciiSpace s)))"

subsection \<open>An example scan\<close>

text \<open>
  A target on which port 22 greets with an SSH banner, port 80 speaks only when spoken
  to, port 23 does not answer within the timeout of the dialer, port 24 does not answer
  and the operating system gives up first, and every other port refuses the connection;
  and the options of a scan of the ports 1 to 25 with concurrency limit 10.
\<close>

definition exampleNet :: network where
  "exampleNet address timeout =
     (if address = ''localhost:22''
      then Connected (\<lambda>written. (''SSH-2.0-OpenSSH_8.9'' @ [CHR 0x0D, CHR 0x0A] @ ''extra''
                                     @ [CHR 0x0D, CHR 0x0A], None))
      else if address = ''localhost:80''
      then Connected (\<lambda>written. if written = [] then ([], Some ''i/o timeout'')
                                 else (''HTTP/1.0 200 OK'' @ [CHR 0x0D, CHR 0x0A], None))
      else if address = ''localhost:23''
      then DialError ''dial tcp 127.0.0.1:23: i/o timeout''
      else if address = ''localhost:24''
      then DialError ''dial tcp 127.0.0.1:24: connect: connection timed out''
      else DialError ''dial tcp 127.0.0.1: connect: connection refused'')"

definition exampleOptions :: ScanOptions where
  "exampleOptions =
     \<lparr>Target = ''localhost'', StartPort = 1, EndPort = 25, Timeout = 2000, Threads = 10,
      AllPorts = False, CommonOnly = False, Verbose = False\<rparr>"

subsection \<open>Invariants of the scan engine\<close>

text \<open>
  What holds of the ports dispatched, in flight and finished at each place of the main
  goroutine.
\<close>

definition countInv :: "ScanOptions \<Rightarrow> ScanState \<Rightarrow> bool" where
  "countInv options s =
     ((case place s of
         Loop p \<Rightarrow> dispatched s = [StartPort options..p - 1] \<and> StartPort options \<le> p
                    \<and> (p \<le> EndPort options + 1 \<or> p = StartPort options)
       | Waiting p \<Rightarrow> dispatched s = [StartPort options..p] \<and> StartPort options \<le> p
                    \<and> p \<le> EndPort options
       | FinalWait \<Rightarrow> dispatched s = [StartPort options..EndPort options]
       | Done \<Rightarrow> dispatched s = [StartPort options..EndPort options] \<and> inflight s = []
       | Panicked \<Rightarrow> (\<exists>p. dispatched s = [StartPort options..p]))
      \<and> mset (inflight s) + mset (finished s) = mset (dispatched s)
      \<and> map fst (connOps s) = finished s)"

text \<open>
  No probe in flight was dispatched before the most recent port that is a multiple of the
  concurrency limit.
\<close>

definition batchInv :: "ScanOptions \<Rightarrow> ScanState \<Rightarrow> bool" where
  "batchInv options s =
     (case place s of
        Loop p \<Rightarrow>
          (\<forall>x \<in> set (inflight s). x < p \<and> (\<forall>k. x \<le> k \<and> k < p \<longrightarrow> \<not> Threads options dvd k))
      | Waiting p \<Rightarrow>
          Threads options dvd p \<and>
          (\<forall>x \<in> set (inflight s). x \<le> p \<and> (\<forall>k. x \<le> k \<and> k < p \<longrightarrow> \<not> Threads options dvd k))
      | FinalWait \<Rightarrow>
          (\<exists>p. \<forall>x \<in> set (inflight s). x < p \<and> (\<forall>k. x \<le> k \<and> k < p \<longrightarrow> \<not> Threads options dvd k))
      | Done \<Rightarrow> True
      | Panicked \<Rightarrow> False)"

text \<open>A measure that every event decreases.\<close>

definition rank :: "ScanOptions \<Rightarrow> ScanState \<Rightarrow> nat" where
  "rank options s =
     (case place s of
        Loop p \<Rightarrow> 3 * nat (EndPort options + 1 - p) + 3
      | Waiting p \<Rightarrow> 3 * nat (EndPort options - p) + 4
      | FinalWait \<Rightarrow> 1
      | Done \<Rightarrow> 0
      | Panicked \<Rightarrow> 0) + length (inflight s)"

section \<open>Properties of the port range resolver\<close>

subsection \<open>Splitting and parsing\<close>

lemma splitOn_nonempty: "splitOn sep s \<noteq> []"
  by (induction s) (auto split: list.splits)

lemma splitOn_no_sep: "sep \<notin> set s \<Longrightarrow> splitOn sep s = [s]"
  by (induction s) auto

lemma splitOn_append_sep:
  "sep \<notin> set a \<Longrightarrow> splitOn sep (a @ sep # rest) = a # splitOn sep rest"
  by (induction a) (auto split: list.splits simp: splitOn_nonempty)

lemma splitOn_two:
  "sep \<notin> set a \<Longrightarrow> sep \<notin> set b \<Longrightarrow> splitOn sep (a @ sep # b) = [a, b]"
  by (simp add: splitOn_append_sep splitOn_no_sep)

lemma isDigit_not_sign: "isDigit c \<Longrightarrow> c \<noteq> CHR ''-'' \<and> c \<noteq> CHR ''+''"
  by (auto simp: isDigit_def)

lemma digits_no_hyphen: "list_all isDigit s \<Longrightarrow> CHR ''-'' \<notin> set s"
  by (auto simp: list_all_iff dest: isDigit_not_sign)

lemma Atoi_digits:
  assumes "s \<noteq> []" "list_all isDigit s" "int (decimalValue s) \<le> maxInt64"
  shows "Atoi s = Some (int (decimalValue s))"
proof -
  obtain c r where s: "s = c # r"
    using assms(1) by (cases s) auto
  have c: "c \<noteq> CHR ''-''" "c \<noteq> CHR ''+''"
    using assms(2) isDigit_not_sign [of c] by (auto simp: s)
  have "minInt64 \<le> int (decimalValue s)"
    by (simp add: minInt64_def)
  then show ?thesis
    using assms c by (simp add: Atoi_def s Let_def)
qed

lemma digitChar_digit: "d < 10 \<Longrightarrow> isDigit (digitChar d) \<and> digitVal (digitChar d) = d"
proof -
  assume "d < 10"
  then have "d \<in> {0, 1, 2, 3, 4, 5, 6, 7, 8, 9}"
    by auto
  then show ?thesis
    by (auto simp: digitChar_def isDigit_def digitVal_def)
qed

lemma showNat_nonempty: "showNat n \<noteq> []"
  by (subst showNat.simps) simp

lemma showNat_digits: "list_all isDigit (showNat n)"
proof (induction n rule: showNat.induct)
  case (1 n)
  show ?case
    using 1 by (subst showNat.simps) (simp add: digitChar_digit)
qed

lemma decimalValue_snoc: "decimalValue (ds @ [c]) = decimalValue ds * 10 + digitVal c"
  by (simp add: decimalValue_def)

lemma decimalValue_showNat: "decimalValue (showNat n) = n"
proof (induction n rule: showNat.induct)
  case (1 n)
  show ?case
  proof (cases "n < 10")
    case True
    then show ?thesis
      by (subst showNat.simps) (simp add: decimalValue_def digitChar_digit)
  next
    case False
    then have "decimalValue (showNat (n div 10)) = n div 10"
      using 1 by simp
    with False show ?thesis
      by (subst showNat.simps) (simp add: decimalValue_snoc digitChar_digit)
  qed
qed

lemma parsePortRange_tokens:
  assumes "a \<noteq> []" "list_all isDigit a" "b \<noteq> []" "list_all isDigit b"
    and "decimalValue a \<le> 65535" "decimalValue b \<le> 65535"
  shows "parsePortRange (a @ ''-'' @ b) =
           (if decimalValue a < 1 then Inl ''start port must be 1 or greater''
            else if decimalValue b \<le> decimalValue a
            then Inl ''end port must be greater than start port''
            else Inr (int (decimalValue a), int (decimalValue b)))"
proof -
  have split: "splitOn CHR ''-'' (a @ CHR ''-'' # b) = [a, b]"
    using assms(2,4) by (simp add: splitOn_two digits_no_hyphen)
  have "Atoi a = Some (int (decimalValue a))" "Atoi b = Some (int (decimalValue b))"
    using assms by (simp_all add: Atoi_digits maxInt64_def)
  then show ?thesis
    using assms(5,6) by (simp add: parsePortRange_def split)
qed

subsection \<open>Valid ranges\<close>

text \<open>
  Claim C3. For every string \<open>start-end\<close> whose two tokens are decimal integers with
  \<open>1 \<le> start < end \<le> 65535\<close>, \<^const>\<open>parsePortRange\<close> returns exactly the pair
  \<open>(start, end)\<close> and no error; when \<open>start = end\<close> it fails with the error saying that
  the end port must be greater than the start port. The tokens are any non-empty digit
  strings (leading zeros included), read by their decimal value; in particular they are
  the decimal numerals of the two numbers.
\<close>

theorem parsePortRange_valid_range:
  "(a \<noteq> [] \<and> list_all isDigit a \<and> b \<noteq> [] \<and> list_all isDigit b \<and>
      1 \<le> decimalValue a \<and> decimalValue a < decimalValue b \<and> decimalValue b \<le> 65535 \<longrightarrow>
      parsePortRange (a @ ''-'' @ b) = Inr (int (decimalValue a), int (decimalValue b)))
   \<and> (a \<noteq> [] \<and> list_all isDigit a \<and> b \<noteq> [] \<and> list_all isDigit b \<and>
      1 \<le> decimalValue a \<and> decimalValue a = decimalValue b \<and> decimalValue b \<le> 65535 \<longrightarrow>
      parsePortRange (a @ ''-'' @ b) = Inl ''end port must be greater than start port'')
   \<and> (1 \<le> m \<and> m < n \<and> n \<le> 65535 \<longrightarrow>
      parsePortRange (showInt m @ ''-'' @ showInt n) = Inr (m, n))
   \<and> (1 \<le> m \<and> m \<le> 65535 \<longrightarrow>
      parsePortRange (showInt m @ ''-'' @ showInt m) =
        Inl ''end port must be greater than start port'')"
proof (intro conjI impI)
  assume "a \<noteq> [] \<and> list_all isDigit a \<and> b \<noteq> [] \<and> list_all isDigit b \<and>
      1 \<le> decimalValue a \<and> decimalValue a < decimalValue b \<and> decimalValue b \<le> 65535"
  then show "parsePortRange (a @ ''-'' @ b) = Inr (int (decimalValue a), int (decimalValue b))"
    using parsePortRange_tokens [of a b] by simp
next
  assume "a \<noteq> [] \<and> list_all isDigit a \<and> b \<noteq> [] \<and> list_all isDigit b \<and>
      1 \<le> decimalValue a \<and> decimalValue a = decimalValue b \<and> decimalValue b \<le> 65535"
  then show "parsePortRange (a @ ''-'' @ b) = Inl ''end port must be greater than start port''"
    using parsePortRange_tokens [of a b] by simp
next
  assume mn: "1 \<le> m \<and> m < n \<and> n \<le> 65535"
  then have shown: "showInt m = showNat (nat m)" "showInt n = showNat (nat n)"
    by (simp_all add: showInt_def)
  have bounds: "nat m \<le> 65535" "nat n \<le> 65535" "\<not> nat m < 1" "\<not> nat n \<le> nat m"
    using mn by auto
  have "parsePortRange (showNat (nat m) @ ''-'' @ showNat (nat n)) = Inr (int (nat m), int (nat n))"
    using bounds
    by (subst parsePortRange_tokens)
      (simp_all add: showNat_nonempty showNat_digits decimalValue_showNat)
  then show "parsePortRange (showInt m @ ''-'' @ showInt n) = Inr (m, n)"
    using mn shown by simp
next
  assume m: "1 \<le> m \<and> m \<le> 65535"
  then have shown: "showInt m = showNat (nat m)"
    by (simp add: showInt_def)
  have bounds: "nat m \<le> 65535" "\<not> nat m < 1"
    using m by auto
  have "parsePortRange (showNat (nat m) @ ''-'' @ showNat (nat m)) =
      Inl ''end port must be greater than start port''"
    using bounds
    by (subst parsePortRange_tokens)
      (simp_all add: showNat_nonempty showNat_digits decimalValue_showNat)
  then show "parsePortRange (showInt m @ ''-'' @ showInt m) =
      Inl ''end port must be greater than start port''"
    using shown by simp
qed

theorem parsePortRange_valid_range_witness:
  "parsePortRange ''020-1024'' = Inr (20, 1024)
   \<and> parsePortRange ''443-443'' = Inl ''end port must be greater than start port''
   \<and> parsePortRange (showInt 1 @ ''-'' @ showInt 65535) = Inr (1, 65535)
   \<and> parsePortRange (showInt 65535 @ ''-'' @ showInt 65535) =
       Inl ''end port must be greater than start port''"
  using parsePortRange_valid_range [of "''020''" "''1024''" 1 65535]
    parsePortRange_valid_range [of "''443''" "''443''" 65535 65535]
  by (simp add: isDigit_def decimalValue_def digitVal_def)

subsection \<open>The order of the checks\<close>

text \<open>
  Claim C4. \<^const>\<open>parsePortRange\<close> applies its checks in a fixed order, and the first
  one that fails decides the error: the format (the string splits on the hyphen into
  exactly two tokens), the integer parse of the first token and then of the second (the
  error ends with the offending token), \<open>start \<ge> 1\<close>, \<open>end > start\<close>, \<open>end \<le> 65535\<close>.
  So \<open>100-50\<close> fails with the end-must-exceed-start error, \<open>0-10\<close> with the
  start-must-be-at-least-1 error, \<open>1-99999\<close> with the end-at-most-65535 error, and
  \<open>abc-10\<close> with a parse error that names \<open>abc\<close>.
\<close>

theorem parsePortRange_check_order:
  "(length (splitOn CHR ''-'' s) \<noteq> 2 \<longrightarrow>
      parsePortRange s = Inl ''invalid port range format, use: startPort-endPort'')
   \<and> (splitOn CHR ''-'' s = [a, b] \<and> Atoi a = None \<longrightarrow>
      parsePortRange s = Inl (''invalid start port: '' @ a))
   \<and> (splitOn CHR ''-'' s = [a, b] \<and> Atoi a = Some x \<and> Atoi b = None \<longrightarrow>
      parsePortRange s = Inl (''invalid end port: '' @ b))
   \<and> (splitOn CHR ''-'' s = [a, b] \<and> Atoi a = Some x \<and> Atoi b = Some y \<and> x < 1 \<longrightarrow>
      parsePortRange s = Inl ''start port must be 1 or greater'')
   \<and> (splitOn CHR ''-'' s = [a, b] \<and> Atoi a = Some x \<and> Atoi b = Some y \<and> 1 \<le> x \<and> y \<le> x \<longrightarrow>
      parsePortRange s = Inl ''end port must be greater than start port'')
   \<and> (splitOn CHR ''-'' s = [a, b] \<and> Atoi a = Some x \<and> Atoi b = Some y \<and> 1 \<le> x \<and> x < y \<and>
      65535 < y \<longrightarrow>
      parsePortRange s = Inl ''end port must be less than or equal to 65535'')
   \<and> (splitOn CHR ''-'' s = [a, b] \<and> Atoi a = Some x \<and> Atoi b = Some y \<and> 1 \<le> x \<and> x < y \<and>
      y \<le> 65535 \<longrightarrow>
      parsePortRange s = Inr (x, y))
   \<and> parsePortRange ''100-50'' = Inl ''end port must be greater than start port''
   \<and> parsePortRange ''0-10'' = Inl ''start port must be 1 or greater''
   \<and> parsePortRange ''1-99999'' = Inl ''end port must be less than or equal to 65535''
   \<and> parsePortRange ''abc-10'' = Inl ''invalid start port: abc''"
proof -
  have examples:
    "parsePortRange ''100-50'' = Inl ''end port must be greater than start port''"
    "parsePortRange ''0-10'' = Inl ''start port must be 1 or greater''"
    "parsePortRange ''1-99999'' = Inl ''end port must be less than or equal to 65535''"
    "parsePortRange ''abc-10'' = Inl ''invalid start port: abc''"
    by (simp_all add: parsePortRange_def Atoi_def isDigit_def decimalValue_def digitVal_def
        minInt64_def maxInt64_def)
  show ?thesis
    by (simp add: examples) (simp add: parsePortRange_def)
qed

theorem parsePortRange_check_order_witness:
  "parsePortRange ''x-1-y'' = Inl ''invalid port range format, use: startPort-endPort''
   \<and> parsePortRange ''x-y'' = Inl ''invalid start port: x''
   \<and> parsePortRange ''0-y'' = Inl ''invalid end port: y''
   \<and> parsePortRange ''0-0'' = Inl ''start port must be 1 or greater''
   \<and> parsePortRange ''70000-70000'' = Inl ''end port must be greater than start port''
   \<and> parsePortRange ''5-70000'' = Inl ''end port must be less than or equal to 65535''
   \<and> parsePortRange ''5-+07'' = Inr (5, 7)"
  using parsePortRange_check_order [of "''x-1-y''"]
    parsePortRange_check_order [of "''x-y''" "''x''" "''y''"]
    parsePortRange_check_order [of "''0-y''" "''0''" "''y''" 0]
    parsePortRange_check_order [of "''0-0''" "''0''" "''0''" 0 0]
    parsePortRange_check_order [of "''70000-70000''" "''70000''" "''70000''" 70000 70000]
    parsePortRange_check_order [of "''5-70000''" "''5''" "''70000''" 5 70000]
    parsePortRange_check_order [of "''5-+07''" "''5''" "''+07''" 5 7]
  by (simp add: Atoi_def isDigit_def decimalValue_def digitVal_def minInt64_def maxInt64_def)

subsection \<open>Mode flags\<close>

text \<open>
  Claim C5. When a mode flag is given together with an explicit range, the flag decides
  the interval: with the all-ports flag it is \<open>(1, 65535)\<close> whatever the range string and
  the common-ports flag are; with the common-ports flag and without the all-ports flag it
  is \<open>(1, 1024)\<close> whatever the range string is; and the range string is parsed only when
  neither flag is set, in which case the result is that of \<^const>\<open>parsePortRange\<close>: its
  pair, or its error in the message printed before the exit.
\<close>

theorem setPortRange_precedence:
  "(AllPorts options \<longrightarrow>
      setPortRange options portRange = Inr (options\<lparr>StartPort := 1, EndPort := 65535\<rparr>))
   \<and> (\<not> AllPorts options \<and> CommonOnly options \<longrightarrow>
      setPortRange options portRange = Inr (options\<lparr>StartPort := 1, EndPort := 1024\<rparr>))
   \<and> (\<not> AllPorts options \<and> \<not> CommonOnly options \<longrightarrow>
      (\<forall>m n. parsePortRange portRange = Inr (m, n) \<longrightarrow>
         setPortRange options portRange = Inr (options\<lparr>StartPort := m, EndPort := n\<rparr>))
      \<and> (\<forall>err. parsePortRange portRange = Inl err \<longrightarrow>
         setPortRange options portRange = Inl (''Error with port range: '' @ err @ [CHR 0x0A])))"
  by (simp add: setPortRange_def)

theorem setPortRange_precedence_witness:
  "setPortRange \<lparr>Target = ''localhost'', StartPort = 0, EndPort = 0, Timeout = 2000,
       Threads = 100, AllPorts = True, CommonOnly = True, Verbose = False\<rparr> ''9-5'' =
     Inr \<lparr>Target = ''localhost'', StartPort = 1, EndPort = 65535, Timeout = 2000,
       Threads = 100, AllPorts = True, CommonOnly = True, Verbose = False\<rparr>
   \<and> setPortRange \<lparr>Target = ''localhost'', StartPort = 0, EndPort = 0, Timeout = 2000,
       Threads = 100, AllPorts = False, CommonOnly = True, Verbose = False\<rparr> ''9-5'' =
     Inr \<lparr>Target = ''localhost'', StartPort = 1, EndPort = 1024, Timeout = 2000,
       Threads = 100, AllPorts = False, CommonOnly = True, Verbose = False\<rparr>
   \<and> setPortRange \<lparr>Target = ''localhost'', StartPort = 0, EndPort = 0, Timeout = 2000,
       Threads = 100, AllPorts = False, CommonOnly = False, Verbose = False\<rparr> ''20-25'' =
     Inr \<lparr>Target = ''localhost'', StartPort = 20, EndPort = 25, Timeout = 2000,
       Threads = 100, AllPorts = False, CommonOnly = False, Verbose = False\<rparr>
   \<and> setPortRange \<lparr>Target = ''localhost'', StartPort = 0, EndPort = 0, Timeout = 2000,
       Threads = 100, AllPorts = False, CommonOnly = False, Verbose = False\<rparr> ''9-5'' =
     Inl (''Error with port range: end port must be greater than start port'' @ [CHR 0x0A])"
  using
    setPortRange_precedence [of "\<lparr>Target = ''localhost'', StartPort = 0, EndPort = 0,
       Timeout = 2000, Threads = 100, AllPorts = True, CommonOnly = True, Verbose = False\<rparr>"
       "''9-5''"]
    setPortRange_precedence [of "\<lparr>Target = ''localhost'', StartPort = 0, EndPort = 0,
       Timeout = 2000, Threads = 100, AllPorts = False, CommonOnly = True, Verbose = False\<rparr>"
       "''9-5''"]
    setPortRange_precedence [of "\<lparr>Target = ''localhost'', StartPort = 0, EndPort = 0,
       Timeout = 2000, Threads = 100, AllPorts = False, CommonOnly = False, Verbose = False\<rparr>"
       "''20-25''"]
    setPortRange_precedence [of "\<lparr>Target = ''localhost'', StartPort = 0, EndPort = 0,
       Timeout = 2000, Threads = 100, AllPorts = False, CommonOnly = False, Verbose = False\<rparr>"
       "''9-5''"]
  by (simp add: parsePortRange_def Atoi_def isDigit_def decimalValue_def digitVal_def
      minInt64_def maxInt64_def)

section \<open>Properties of the scan engine\<close>

subsection \<open>Schedules and invariants\<close>

lemma run_append:
  "run net options (es @ es') s =
     (case run net options es s of None \<Rightarrow> None | Some s' \<Rightarrow> run net options es' s')"
  by (induction es arbitrary: s) (auto split: option.splits)


lemma reachable_step:
  "reachable net options s \<Longrightarrow> step net options e s = Some s' \<Longrightarrow> reachable net options s'"
  unfolding reachable_def
proof -
  assume "\<exists>es. run net options es (initState options) = Some s" and st: "step net options e s = Some s'"
  then obtain es where "run net options es (initState options) = Some s" by blast
  then have "run net options (es @ [e]) (initState options) = Some s'"
    using st by (simp add: run_append)
  then show "\<exists>es. run net options es (initState options) = Some s'" by blast
qed

lemma reachable_invariant:
  assumes "reachable net options s"
    and init: "P (initState options)"
    and pres: "\<And>s e s'. P s \<Longrightarrow> step net options e s = Some s' \<Longrightarrow> P s'"
  shows "P s"
proof -
  have "run net options es s0 = Some s1 \<Longrightarrow> P s0 \<Longrightarrow> P s1" for es s0 s1
  proof (induction es arbitrary: s0)
    case Nil
    then show ?case by simp
  next
    case (Cons e es)
    then show ?case
      by (auto split: option.splits intro: pres)
  qed
  then show ?thesis
    using assms(1) init unfolding reachable_def by blast
qed

lemma upto_snoc: "i \<le> j + 1 \<Longrightarrow> [i..j] @ [j + 1] = [i..j + 1]"
  by (simp add: upto_rec2)

lemma countInv_init: "countInv options (initState options)"
  by (simp add: countInv_def initState_def)

lemma countInv_mainStep:
  assumes "EndPort options < maxInt64" "countInv options s" "mainStep options s = Some s'"
  shows "countInv options s'"
proof (cases "place s")
  case (Loop p)
  show ?thesis
  proof (cases "p \<le> EndPort options")
    case True
    then have inc: "incInt p = p + 1"
      using assms(1) by (simp add: incInt_def)
    have d: "dispatched s @ [p] = [StartPort options..p]"
      using assms(2) Loop upto_snoc [of "StartPort options" "p - 1"] by (simp add: countInv_def)
    have "mset (dispatched s @ [p]) = mset [StartPort options..p]"
      by (simp only: d)
    then have m: "add_mset p (mset (dispatched s)) = mset [StartPort options..p]"
      by simp
    have "mset (inflight s) + mset (finished s) = mset (dispatched s)"
      using assms(2) by (simp add: countInv_def)
    then have m': "add_mset p (mset (inflight s) + mset (finished s)) = mset [StartPort options..p]"
      using m by simp
    show ?thesis
      using assms(2,3) Loop True inc d m'
      by (auto simp: countInv_def mainStep_def Let_def split: if_splits)
  next
    case False
    have "p = EndPort options + 1 \<or> (p = StartPort options \<and> EndPort options < StartPort options)"
      using False assms(2) Loop by (auto simp: countInv_def)
    then have "[StartPort options..p - 1] = [StartPort options..EndPort options]"
      by auto
    then show ?thesis
      using assms(2,3) Loop False by (auto simp: countInv_def mainStep_def)
  qed
next
  case (Waiting p)
  then have "p \<le> EndPort options"
    using assms(2) by (simp add: countInv_def)
  then have inc: "incInt p = p + 1"
    using assms(1) by (simp add: incInt_def)
  show ?thesis
    using assms(2,3) Waiting inc by (auto simp: countInv_def mainStep_def split: if_splits)
next
  case FinalWait
  then show ?thesis
    using assms(2,3) by (auto simp: countInv_def mainStep_def split: if_splits)
next
  case Done
  then show ?thesis
    using assms(3) by (simp add: mainStep_def)
next
  case Panicked
  then show ?thesis
    using assms(3) by (simp add: mainStep_def)
qed

lemma probeEnd_place: "probeEnd net options port s = Some s' \<Longrightarrow> place s' = place s"
  by (auto simp: probeEnd_def split: if_splits prod.splits)

lemma countInv_probeEnd:
  assumes "countInv options s" "probeEnd net options port s = Some s'"
  shows "countInv options s'"
proof -
  have in_flight: "port \<in> set (inflight s)"
    using assms(2) by (auto simp: probeEnd_def split: if_splits)
  obtain lines ops where s': "s' = s\<lparr>inflight := remove1 port (inflight s),
      finished := finished s @ [port], printed := printed s @ lines,
      connOps := connOps s @ [(port, ops)]\<rparr>"
    using assms(2) by (auto simp: probeEnd_def split: if_splits prod.splits)
  have "mset (remove1 port (inflight s)) + mset (finished s @ [port]) =
      add_mset port (mset (remove1 port (inflight s))) + mset (finished s)"
    by simp
  also have "add_mset port (mset (remove1 port (inflight s))) = mset (inflight s)"
    using in_flight by simp
  also have "mset (inflight s) + mset (finished s) = mset (dispatched s)"
    using assms(1) by (simp add: countInv_def)
  finally have "mset (remove1 port (inflight s)) + mset (finished s @ [port]) = mset (dispatched s)" .
  moreover have "place s \<noteq> Done"
    using assms(1) in_flight by (auto simp: countInv_def)
  ultimately show ?thesis
    using assms(1) by (cases "place s") (simp_all add: countInv_def s')
qed

lemma countInv_reachable:
  assumes "EndPort options < maxInt64" "reachable net options s"
  shows "countInv options s"
  using assms(2)
proof (rule reachable_invariant)
  show "countInv options (initState options)"
    by (rule countInv_init)
next
  fix s e s'
  assume "countInv options s" "step net options e s = Some s'"
  then show "countInv options s'"
    using assms(1) by (cases e) (auto intro: countInv_mainStep countInv_probeEnd)
qed

lemma goRem_zero_iff: "b \<noteq> 0 \<Longrightarrow> goRem a b = 0 \<longleftrightarrow> b dvd a"
proof -
  assume "b \<noteq> 0"
  have "goRem a b = 0 \<longleftrightarrow> a = 0 \<or> \<bar>a\<bar> mod \<bar>b\<bar> = 0"
    by (auto simp: goRem_def sgn_if)
  also have "\<dots> \<longleftrightarrow> \<bar>b\<bar> dvd \<bar>a\<bar>"
    by (auto simp: dvd_eq_mod_eq_0)
  finally show ?thesis
    by simp
qed

lemma batchInv_init: "batchInv options (initState options)"
  by (simp add: batchInv_def initState_def)

lemma batchInv_mainStep:
  assumes "1 \<le> Threads options" "EndPort options < maxInt64"
    and "batchInv options s" "mainStep options s = Some s'"
  shows "batchInv options s'"
proof (cases "place s")
  case (Loop p)
  show ?thesis
  proof (cases "p \<le> EndPort options")
    case True
    then have inc: "incInt p = p + 1"
      using assms(2) by (simp add: incInt_def)
    have rem: "goRem p (Threads options) = 0 \<longleftrightarrow> Threads options dvd p"
      using assms(1) by (simp add: goRem_zero_iff)
    have old: "\<forall>x \<in> set (inflight s). x < p \<and> (\<forall>k. x \<le> k \<and> k < p \<longrightarrow> \<not> Threads options dvd k)"
      using assms(3) Loop by (simp add: batchInv_def)
    show ?thesis
    proof (cases "Threads options dvd p")
      case True
      then have "s' = s\<lparr>inflight := inflight s @ [p], dispatched := dispatched s @ [p],
          place := Waiting p\<rparr>"
        using assms(1,4) Loop \<open>p \<le> EndPort options\<close> rem by (simp add: mainStep_def Let_def)
      then show ?thesis
        using old True by (auto simp: batchInv_def)
    next
      case False
      then have s': "s' = s\<lparr>inflight := inflight s @ [p], dispatched := dispatched s @ [p],
          place := Loop (p + 1)\<rparr>"
        using assms(1,4) Loop \<open>p \<le> EndPort options\<close> rem inc by (simp add: mainStep_def Let_def)
      have "x < p + 1 \<and> (\<forall>k. x \<le> k \<and> k < p + 1 \<longrightarrow> \<not> Threads options dvd k)"
        if "x \<in> set (inflight s @ [p])" for x
      proof (intro conjI allI impI)
        show "x < p + 1"
          using that old by auto
      next
        fix k
        assume k: "x \<le> k \<and> k < p + 1"
        show "\<not> Threads options dvd k"
        proof (cases "k = p")
          case True
          then show ?thesis using False by simp
        next
          case False
          then have "k < p" using k by simp
          moreover have "x \<in> set (inflight s)"
            using that k False by auto
          ultimately show ?thesis
            using old k by blast
        qed
      qed
      then show ?thesis
        by (simp add: batchInv_def s')
    qed
  next
    case False
    then have "s' = s\<lparr>place := FinalWait\<rparr>"
      using assms(4) Loop by (simp add: mainStep_def)
    then show ?thesis
      using assms(3) Loop by (auto simp: batchInv_def)
  qed
next
  case (Waiting p)
  then show ?thesis
    using assms(3,4) by (auto simp: batchInv_def mainStep_def split: if_splits)
next
  case FinalWait
  then show ?thesis
    using assms(4) by (auto simp: batchInv_def mainStep_def split: if_splits)
next
  case Done
  then show ?thesis
    using assms(4) by (simp add: mainStep_def)
next
  case Panicked
  then show ?thesis
    using assms(4) by (simp add: mainStep_def)
qed

lemma batchInv_probeEnd:
  assumes "batchInv options s" "probeEnd net options port s = Some s'"
  shows "batchInv options s'"
proof -
  obtain lines ops where s': "s' = s\<lparr>inflight := remove1 port (inflight s),
      finished := finished s @ [port], printed := printed s @ lines,
      connOps := connOps s @ [(port, ops)]\<rparr>"
    using assms(2) by (auto simp: probeEnd_def split: if_splits prod.splits)
  have sub: "x \<in> set (inflight s)" if "x \<in> set (remove1 port (inflight s))" for x
    using that set_remove1_subset [of port "inflight s"] by blast
  show ?thesis
  proof (cases "place s")
    case (Loop p)
    then show ?thesis using assms(1) sub by (simp add: batchInv_def s') blast
  next
    case (Waiting p)
    then show ?thesis using assms(1) sub by (simp add: batchInv_def s') blast
  next
    case FinalWait
    then show ?thesis using assms(1) sub by (simp add: batchInv_def s') blast
  next
    case Done
    then show ?thesis by (simp add: batchInv_def s')
  next
    case Panicked
    then show ?thesis using assms(1) by (simp add: batchInv_def)
  qed
qed

lemma batchInv_reachable:
  assumes "1 \<le> Threads options" "EndPort options < maxInt64" "reachable net options s"
  shows "batchInv options s"
  using assms(3)
proof (rule reachable_invariant)
  show "batchInv options (initState options)"
    by (rule batchInv_init)
next
  fix s e s'
  assume "batchInv options s" "step net options e s = Some s'"
  then show "batchInv options s'"
    using assms(1,2) by (cases e) (auto intro: batchInv_mainStep batchInv_probeEnd)
qed

lemma multiple_within:
  fixes L x :: int
  assumes "0 < L"
  shows "\<exists>k. x \<le> k \<and> k < x + L \<and> L dvd k"
proof (intro exI conjI)
  show "x \<le> x + (- x) mod L"
    using assms by simp
  show "x + (- x) mod L < x + L"
    using assms by simp
  have "(x + (- x) mod L) mod L = (x + - x) mod L"
    by (simp only: mod_add_right_eq)
  then show "L dvd x + (- x) mod L"
    by (simp add: dvd_eq_mod_eq_0)
qed

lemma no_multiple_gap:
  fixes L x p :: int
  assumes "0 < L" "\<forall>k. x \<le> k \<and> k < p \<longrightarrow> \<not> L dvd k"
  shows "p < x + L"
proof (rule ccontr)
  assume "\<not> p < x + L"
  moreover obtain k where "x \<le> k" "k < x + L" "L dvd k"
    using multiple_within [OF assms(1), of x] by blast
  ultimately show False
    using assms(2) by force
qed

lemma length_le_interval:
  fixes a b :: int
  assumes "distinct xs" "set xs \<subseteq> {a..b}"
  shows "int (length xs) \<le> max 0 (b - a + 1)"
proof -
  have "length xs = card (set xs)"
    using assms(1) by (simp add: distinct_card)
  also have "\<dots> \<le> card {a..b}"
    using assms(2) by (intro card_mono) simp_all
  finally show ?thesis
    by simp
qed

lemma inflight_distinct:
  assumes "EndPort options < maxInt64" "reachable net options s"
  shows "distinct (inflight s) \<and> distinct (finished s) \<and> distinct (dispatched s)
    \<and> set (inflight s) \<inter> set (finished s) = {}"
proof -
  have inv: "countInv options s"
    using assms by (rule countInv_reachable)
  then have "\<exists>q. dispatched s = [StartPort options..q]"
    by (cases "place s") (auto simp: countInv_def)
  then have d: "distinct (dispatched s)"
    by auto
  have m: "mset (inflight s @ finished s) = mset (dispatched s)"
    using inv by (simp add: countInv_def)
  have "distinct (inflight s @ finished s)"
    using d m by (metis distinct_count_atmost_1 set_mset_mset)
  then show ?thesis
    using d by auto
qed

subsection \<open>Bounded fan-out\<close>

lemma inflight_bound:
  assumes "1 \<le> Threads options" "EndPort options < maxInt64" "reachable net options s"
  shows "int (length (inflight s)) \<le> Threads options"
proof -
  let ?L = "Threads options"
  have d: "distinct (inflight s)"
    using inflight_distinct [OF assms(2,3)] by simp
  have b: "batchInv options s"
    using assms by (rule batchInv_reachable)
  have within: "set (inflight s) \<subseteq> {p - ?L + 1..p}"
    if "\<forall>x \<in> set (inflight s). x \<le> p \<and> (\<forall>k. x \<le> k \<and> k < p \<longrightarrow> \<not> ?L dvd k)" for p
  proof
    fix x
    assume x: "x \<in> set (inflight s)"
    then have "p < x + ?L"
      using that assms(1) no_multiple_gap [of ?L x p] by auto
    then show "x \<in> {p - ?L + 1..p}"
      using that x by auto
  qed
  have bound: "int (length (inflight s)) \<le> ?L"
    if "\<forall>x \<in> set (inflight s). x \<le> p \<and> (\<forall>k. x \<le> k \<and> k < p \<longrightarrow> \<not> ?L dvd k)" for p
    using length_le_interval [OF d within [OF that]] assms(1) by simp
  show ?thesis
  proof (cases "place s")
    case (Loop p)
    then have "\<forall>x \<in> set (inflight s). x \<le> p \<and> (\<forall>k. x \<le> k \<and> k < p \<longrightarrow> \<not> ?L dvd k)"
      using b by (auto simp: batchInv_def)
    then show ?thesis by (rule bound)
  next
    case (Waiting p)
    then have "\<forall>x \<in> set (inflight s). x \<le> p \<and> (\<forall>k. x \<le> k \<and> k < p \<longrightarrow> \<not> ?L dvd k)"
      using b by (auto simp: batchInv_def)
    then show ?thesis by (rule bound)
  next
    case FinalWait
    then obtain p where
      "\<forall>x \<in> set (inflight s). x < p \<and> (\<forall>k. x \<le> k \<and> k < p \<longrightarrow> \<not> ?L dvd k)"
      using b by (auto simp: batchInv_def)
    then have "\<forall>x \<in> set (inflight s). x \<le> p \<and> (\<forall>k. x \<le> k \<and> k < p \<longrightarrow> \<not> ?L dvd k)"
      by auto
    then show ?thesis by (rule bound)
  next
    case Done
    then have "inflight s = []"
      using countInv_reachable [OF assms(2,3)] by (simp add: countInv_def)
    then show ?thesis using assms(1) by simp
  next
    case Panicked
    then show ?thesis using b by (simp add: batchInv_def)
  qed
qed

lemma dispatched_ascending:
  assumes "EndPort options < maxInt64" "reachable net options s"
  shows "\<exists>q. dispatched s = [StartPort options..q]"
  using countInv_reachable [OF assms] by (cases "place s") (auto simp: countInv_def)

lemma boundary_enters_wait:
  assumes "1 \<le> Threads options" "place s = Loop p" "p \<le> EndPort options"
    "Threads options dvd p"
  shows "mainStep options s =
    Some (s\<lparr>inflight := inflight s @ [p], dispatched := dispatched s @ [p], place := Waiting p\<rparr>)"
  using assms by (simp add: mainStep_def Let_def goRem_zero_iff)

lemma wait_blocks:
  assumes "place s = Waiting p"
  shows "(\<exists>s'. mainStep options s = Some s') \<longleftrightarrow> inflight s = []"
  using assms by (simp add: mainStep_def)

lemma wait_releases:
  assumes "EndPort options < maxInt64" "reachable net options s" "place s = Waiting p"
    "mainStep options s = Some s'"
  shows "inflight s' = [] \<and> place s' = Loop (p + 1)"
proof -
  have "p \<le> EndPort options"
    using countInv_reachable [OF assms(1,2)] assms(3) by (simp add: countInv_def)
  then have "incInt p = p + 1"
    using assms(1) by (simp add: incInt_def)
  then show ?thesis
    using assms(3,4) by (auto simp: mainStep_def split: if_splits)
qed

lemma first_batch:
  assumes "1 \<le> Threads options" "EndPort options < maxInt64" "reachable net options s"
    "place s = Waiting p" "p < StartPort options + Threads options"
  shows "dispatched s = [StartPort options..p]
    \<and> int (length (dispatched s)) \<le> Threads options
    \<and> (int (length (dispatched s)) = Threads options \<longleftrightarrow> Threads options dvd StartPort options - 1)"
proof -
  let ?L = "Threads options" and ?a = "StartPort options"
  have c: "dispatched s = [?a..p]" "?a \<le> p"
    using countInv_reachable [OF assms(2,3)] assms(4) by (simp_all add: countInv_def)
  have dvd: "?L dvd p"
    using batchInv_reachable [OF assms(1,2,3)] assms(4) by (simp add: batchInv_def)
  have len: "int (length (dispatched s)) = p - ?a + 1"
    using c by simp
  have "?L dvd ?a - 1" if "p - ?a + 1 = ?L"
  proof -
    have "?a - 1 = p - ?L" using that by simp
    then show ?thesis using dvd by simp
  qed
  moreover have "p - ?a + 1 = ?L" if "?L dvd ?a - 1"
  proof -
    have "?L dvd p - (?a - 1)"
      using dvd that by (rule dvd_diff)
    then obtain m where m: "p - (?a - 1) = ?L * m"
      by (auto simp: dvd_def)
    have pos: "0 < ?L * m"
      using c(2) m by linarith
    have le: "?L * m \<le> ?L"
      using assms(5) m by linarith
    have "0 < m"
      using pos assms(1) by (simp add: zero_less_mult_iff)
    moreover have "m \<le> 1"
    proof (rule ccontr)
      assume "\<not> m \<le> 1"
      then have "2 \<le> m"
        by simp
      then have "?L * 2 \<le> ?L * m"
        using assms(1) by (simp add: mult_left_mono)
      then show False
        using le assms(1) by linarith
    qed
    ultimately have "m = 1"
      by simp
    then show ?thesis using m by simp
  qed
  ultimately show ?thesis
    using c len assms(5) by auto
qed

text \<open>
  Claim C1. In every state that a scan with concurrency limit \<open>L \<ge> 1\<close> can reach:
  the ports dispatched so far are the interval from the start port upwards, in ascending
  order; the number of probes in flight is at most \<open>L\<close>; dispatching a port that is a
  multiple of \<open>L\<close> takes the engine into the wait after that port; in that wait the
  engine cannot continue unless no probe is in flight, and it continues with the next
  port and nothing in flight; so at every dispatch no probe in flight was dispatched at or
  before the most recent multiple of \<open>L\<close>. The first batch, which ends at the first
  multiple of \<open>L\<close>, has at most \<open>L\<close> ports, and exactly \<open>L\<close> only when the start port
  is congruent to 1 modulo \<open>L\<close>. The end port is below the largest 64-bit integer, so
  that the increment of the port does not wrap around.
\<close>

theorem bounded_fanout:
  assumes "1 \<le> Threads options" "EndPort options < maxInt64" "reachable net options s"
  shows "(\<exists>q. dispatched s = [StartPort options..q])
    \<and> int (length (inflight s)) \<le> Threads options
    \<and> (\<forall>p. place s = Loop p \<and> p \<le> EndPort options \<and> Threads options dvd p \<longrightarrow>
          mainStep options s =
            Some (s\<lparr>inflight := inflight s @ [p], dispatched := dispatched s @ [p],
                    place := Waiting p\<rparr>))
    \<and> (\<forall>p. place s = Waiting p \<longrightarrow>
          Threads options dvd p \<and> dispatched s = [StartPort options..p]
          \<and> ((\<exists>s'. mainStep options s = Some s') \<longleftrightarrow> inflight s = [])
          \<and> (\<forall>s'. mainStep options s = Some s' \<longrightarrow> inflight s' = [] \<and> place s' = Loop (p + 1)))
    \<and> (\<forall>p. place s = Loop p \<longrightarrow>
          dispatched s = [StartPort options..p - 1]
          \<and> (\<forall>x \<in> set (inflight s). \<forall>k. x \<le> k \<and> k < p \<longrightarrow> \<not> Threads options dvd k))
    \<and> (\<forall>p. place s = Waiting p \<and> p < StartPort options + Threads options \<longrightarrow>
          int (length (dispatched s)) \<le> Threads options
          \<and> (int (length (dispatched s)) = Threads options
               \<longleftrightarrow> Threads options dvd StartPort options - 1))"
proof -
  have count: "countInv options s"
    using assms(2,3) by (rule countInv_reachable)
  have batch: "batchInv options s"
    using assms by (rule batchInv_reachable)
  have order: "\<exists>q. dispatched s = [StartPort options..q]"
    using assms(2,3) by (rule dispatched_ascending)
  have bound: "int (length (inflight s)) \<le> Threads options"
    using assms by (rule inflight_bound)
  have enter: "\<forall>p. place s = Loop p \<and> p \<le> EndPort options \<and> Threads options dvd p \<longrightarrow>
      mainStep options s =
        Some (s\<lparr>inflight := inflight s @ [p], dispatched := dispatched s @ [p],
                place := Waiting p\<rparr>)"
    using assms(1) by (simp add: boundary_enters_wait)
  have wait: "\<forall>p. place s = Waiting p \<longrightarrow>
      Threads options dvd p \<and> dispatched s = [StartPort options..p]
      \<and> ((\<exists>s'. mainStep options s = Some s') \<longleftrightarrow> inflight s = [])
      \<and> (\<forall>s'. mainStep options s = Some s' \<longrightarrow> inflight s' = [] \<and> place s' = Loop (p + 1))"
  proof (intro allI impI)
    fix p
    assume w: "place s = Waiting p"
    have "Threads options dvd p"
      using batch w by (simp add: batchInv_def)
    moreover have "dispatched s = [StartPort options..p]"
      using count w by (simp add: countInv_def)
    moreover have "(\<exists>s'. mainStep options s = Some s') \<longleftrightarrow> inflight s = []"
      using w by (rule wait_blocks)
    moreover have "\<forall>s'. mainStep options s = Some s' \<longrightarrow> inflight s' = [] \<and> place s' = Loop (p + 1)"
      using assms(2,3) w by (simp add: wait_releases)
    ultimately show "Threads options dvd p \<and> dispatched s = [StartPort options..p]
      \<and> ((\<exists>s'. mainStep options s = Some s') \<longleftrightarrow> inflight s = [])
      \<and> (\<forall>s'. mainStep options s = Some s' \<longrightarrow> inflight s' = [] \<and> place s' = Loop (p + 1))"
      by simp
  qed
  have loop: "\<forall>p. place s = Loop p \<longrightarrow>
      dispatched s = [StartPort options..p - 1]
      \<and> (\<forall>x \<in> set (inflight s). \<forall>k. x \<le> k \<and> k < p \<longrightarrow> \<not> Threads options dvd k)"
    using count batch by (auto simp: countInv_def batchInv_def)
  have first: "\<forall>p. place s = Waiting p \<and> p < StartPort options + Threads options \<longrightarrow>
      int (length (dispatched s)) \<le> Threads options
      \<and> (int (length (dispatched s)) = Threads options
           \<longleftrightarrow> Threads options dvd StartPort options - 1)"
    using first_batch [OF assms] by blast
  show ?thesis
    using order bound enter wait loop first by (intro conjI)
qed

lemma example_header:
  "initState exampleOptions =
     \<lparr>place = Loop 1, inflight = [], dispatched = [], finished = [],
      printed = [''Starting port scan on localhost (ports 1-25)'' @ [CHR 0x0A]], connOps = []\<rparr>"
  by (simp add: exampleOptions_def initState_def showInt_def showNat.simps digitChar_def)

lemma example_ten_dispatched:
  "run exampleNet exampleOptions (replicate 10 MainStep) (initState exampleOptions) =
     Some \<lparr>place = Waiting 10, inflight = [1, 2, 3, 4, 5, 6, 7, 8, 9, 10],
       dispatched = [1, 2, 3, 4, 5, 6, 7, 8, 9, 10], finished = [],
       printed = [''Starting port scan on localhost (ports 1-25)'' @ [CHR 0x0A]], connOps = []\<rparr>"
  unfolding example_header
  by (simp add: exampleOptions_def mainStep_def goRem_def incInt_def maxInt64_def minInt64_def
      numeral_eq_Suc)

theorem bounded_fanout_witness:
  "\<exists>s. run exampleNet exampleOptions (replicate 10 MainStep) (initState exampleOptions) = Some s
     \<and> reachable exampleNet exampleOptions s
     \<and> place s = Waiting 10
     \<and> length (inflight s) = 10
     \<and> int (length (inflight s)) \<le> Threads exampleOptions
     \<and> Threads exampleOptions dvd 10
     \<and> dispatched s = [StartPort exampleOptions..10]
     \<and> mainStep exampleOptions s = None"
proof -
  define s where "s =
    \<lparr>place = Waiting 10, inflight = [1, 2, 3, 4, 5, 6, 7, 8, 9, 10 :: int],
     dispatched = [1, 2, 3, 4, 5, 6, 7, 8, 9, 10], finished = [],
     printed = [''Starting port scan on localhost (ports 1-25)'' @ [CHR 0x0A]], connOps = []\<rparr>"
  have run: "run exampleNet exampleOptions (replicate 10 MainStep) (initState exampleOptions) = Some s"
    unfolding s_def by (rule example_ten_dispatched)
  then have r: "reachable exampleNet exampleOptions s"
    unfolding reachable_def by blast
  have pl: "place s = Waiting 10" and len: "length (inflight s) = 10"
    by (simp_all add: s_def)
  have t: "1 \<le> Threads exampleOptions" and e: "EndPort exampleOptions < maxInt64"
    by (simp_all add: exampleOptions_def maxInt64_def)
  note th = bounded_fanout [OF t e r]
  have b: "int (length (inflight s)) \<le> Threads exampleOptions"
    using th by blast
  have w: "Threads exampleOptions dvd 10 \<and> dispatched s = [StartPort exampleOptions..10]
      \<and> ((\<exists>s'. mainStep exampleOptions s = Some s') \<longleftrightarrow> inflight s = [])"
    using th pl by blast
  have "inflight s \<noteq> []"
    using len by auto
  then have "mainStep exampleOptions s = None"
    using w by (cases "mainStep exampleOptions s") auto
  then show ?thesis
    using run r pl len b w by blast
qed

subsection \<open>Panics, progress and termination\<close>

lemma no_panic:
  assumes "Threads options \<noteq> 0" "reachable net options s"
  shows "place s \<noteq> Panicked"
  using assms(2)
proof (rule reachable_invariant)
  show "place (initState options) \<noteq> Panicked"
    by (simp add: initState_def)
next
  fix s e s'
  assume "place s \<noteq> Panicked" "step net options e s = Some s'"
  then show "place s' \<noteq> Panicked"
    using assms(1)
    by (cases e; cases "place s")
      (auto simp: mainStep_def Let_def dest: probeEnd_place split: if_splits)
qed

lemma zero_threads_first_step:
  assumes "Threads options = 0" "StartPort options \<le> EndPort options"
  shows "mainStep options (initState options) =
    Some ((initState options)\<lparr>inflight := [StartPort options],
      dispatched := [StartPort options], place := Panicked\<rparr>)"
  using assms by (simp add: mainStep_def initState_def)

lemma zero_threads_reachable:
  assumes "Threads options = 0" "StartPort options \<le> EndPort options"
    "reachable net options s"
  shows "s = initState options \<or> place s = Panicked"
  using assms(3)
proof (rule reachable_invariant)
  show "initState options = initState options \<or> place (initState options) = Panicked"
    by simp
next
  fix s e s'
  assume inv: "s = initState options \<or> place s = Panicked"
    and st: "step net options e s = Some s'"
  show "s' = initState options \<or> place s' = Panicked"
  proof (cases e)
    case MainStep
    then show ?thesis
      using inv st zero_threads_first_step [OF assms(1,2)] by (auto simp: mainStep_def)
  next
    case (ProbeEnd port)
    then have p: "probeEnd net options port s = Some s'"
      using st by simp
    then have "port \<in> set (inflight s)"
      by (auto simp: probeEnd_def split: if_splits)
    then have "s \<noteq> initState options"
      by (auto simp: initState_def)
    then have "place s = Panicked"
      using inv by simp
    then show ?thesis
      using probeEnd_place [OF p] by simp
  qed
qed


lemma rank_step:
  assumes "EndPort options < maxInt64" "countInv options s" "step net options e s = Some s'"
  shows "rank options s' < rank options s"
proof (cases e)
  case MainStep
  have inc: "incInt p = p + 1" if "p \<le> EndPort options" for p
    using that assms(1) by (simp add: incInt_def)
  show ?thesis
  proof (cases "place s")
    case (Loop p)
    then show ?thesis
      using assms(3) MainStep inc [of p]
      by (auto simp: mainStep_def Let_def rank_def split: if_splits)
  next
    case (Waiting p)
    then have "p \<le> EndPort options"
      using assms(2) by (simp add: countInv_def)
    then show ?thesis
      using assms(3) MainStep Waiting inc [of p]
      by (auto simp: mainStep_def rank_def split: if_splits)
  next
    case FinalWait
    then show ?thesis
      using assms(3) MainStep by (auto simp: mainStep_def rank_def split: if_splits)
  next
    case Done
    then show ?thesis
      using assms(3) MainStep by (simp add: mainStep_def)
  next
    case Panicked
    then show ?thesis
      using assms(3) MainStep by (simp add: mainStep_def)
  qed
next
  case (ProbeEnd port)
  then have p: "port \<in> set (inflight s)" "place s' = place s"
    "inflight s' = remove1 port (inflight s)"
    using assms(3) by (auto simp: probeEnd_def split: if_splits prod.splits)
  then have "length (inflight s') < length (inflight s)"
    by (simp add: length_remove1) (cases "inflight s"; simp)
  then show ?thesis
    using p by (simp add: rank_def)
qed

lemma progress:
  assumes "Threads options \<noteq> 0" "reachable net options s" "place s \<noteq> Done"
  shows "\<exists>e s'. step net options e s = Some s'"
proof (cases "inflight s")
  case Nil
  have "place s \<noteq> Panicked"
    using assms(1,2) by (rule no_panic)
  then have "\<exists>s'. step net options MainStep s = Some s'"
    using assms(3) Nil by (cases "place s") (auto simp: mainStep_def Let_def)
  then show ?thesis
    by blast
next
  case (Cons port rest)
  have "place s \<noteq> Panicked"
    using assms(1,2) by (rule no_panic)
  then have "\<exists>s'. step net options (ProbeEnd port) s = Some s'"
    using Cons by (auto simp: probeEnd_def split: prod.splits)
  then show ?thesis
    by blast
qed

lemma completion_reachable:
  assumes "Threads options \<noteq> 0" "EndPort options < maxInt64" "reachable net options s"
  shows "\<exists>es s'. run net options es s = Some s' \<and> place s' = Done"
  using assms(3)
proof (induction "rank options s" arbitrary: s rule: less_induct)
  case less
  show ?case
  proof (cases "place s = Done")
    case True
    then have "run net options [] s = Some s \<and> place s = Done"
      by simp
    then show ?thesis
      by blast
  next
    case False
    then obtain e s1 where st: "step net options e s = Some s1"
      using progress [OF assms(1) less.prems] by blast
    have r1: "reachable net options s1"
      using less.prems st by (rule reachable_step)
    have "rank options s1 < rank options s"
      using assms(2) countInv_reachable [OF assms(2) less.prems] st by (rule rank_step)
    then obtain es s' where "run net options es s1 = Some s'" "place s' = Done"
      using less.hyps r1 by blast
    then have "run net options (e # es) s = Some s' \<and> place s' = Done"
      using st by simp
    then show ?thesis
      by blast
  qed
qed



subsection \<open>The zero divisor, and completion\<close>

text \<open>
  Claim C10. The batching test \<^verbatim>\<open>port%options.Threads == 0\<close> has no guard against a
  zero divisor. When the concurrency limit is not zero, in particular when it is at least
  1, no state of the scan is the panic: the remainder is defined at every iteration. When
  it is zero and the interval is not empty, the first iteration starts the probe of the
  start port and then panics with the division by zero; nothing else can happen first,
  and in every state reached after the initial one the main goroutine is stopped by the
  panic, so the scan does not complete.
\<close>

theorem modulo_without_zero_guard:
  "(Threads options \<noteq> 0 \<and> reachable net options s \<longrightarrow> place s \<noteq> Panicked)
   \<and> (Threads options = 0 \<and> StartPort options \<le> EndPort options \<longrightarrow>
        mainStep options (initState options) =
          Some ((initState options)\<lparr>inflight := [StartPort options],
            dispatched := [StartPort options], place := Panicked\<rparr>)
        \<and> (\<forall>port. probeEnd net options port (initState options) = None)
        \<and> (reachable net options s \<longrightarrow> s = initState options \<or> place s = Panicked))"
proof -
  have "place s \<noteq> Panicked" if "Threads options \<noteq> 0" "reachable net options s"
    using that by (rule no_panic)
  moreover have "mainStep options (initState options) =
      Some ((initState options)\<lparr>inflight := [StartPort options],
        dispatched := [StartPort options], place := Panicked\<rparr>)"
    if "Threads options = 0" "StartPort options \<le> EndPort options"
    using that by (rule zero_threads_first_step)
  moreover have "probeEnd net options port (initState options) = None" for port
    by (simp add: probeEnd_def initState_def)
  moreover have "s = initState options \<or> place s = Panicked"
    if "Threads options = 0" "StartPort options \<le> EndPort options" "reachable net options s"
    using that by (rule zero_threads_reachable)
  ultimately show ?thesis
    by blast
qed

theorem modulo_without_zero_guard_witness:
  "\<exists>s. reachable exampleNet exampleOptions s \<and> place s = Waiting 10 \<and> place s \<noteq> Panicked
     \<and> mainStep (exampleOptions\<lparr>Threads := 0\<rparr>) (initState (exampleOptions\<lparr>Threads := 0\<rparr>)) =
         Some ((initState (exampleOptions\<lparr>Threads := 0\<rparr>))\<lparr>inflight := [1], dispatched := [1],
           place := Panicked\<rparr>)"
proof -
  obtain s where run:
    "run exampleNet exampleOptions (replicate 10 MainStep) (initState exampleOptions) = Some s"
    and pl: "place s = Waiting 10"
    using example_ten_dispatched by simp
  have r: "reachable exampleNet exampleOptions s"
    unfolding reachable_def using run by blast
  have t: "Threads exampleOptions \<noteq> 0"
    by (simp add: exampleOptions_def)
  have z: "Threads (exampleOptions\<lparr>Threads := 0\<rparr>) = 0
      \<and> StartPort (exampleOptions\<lparr>Threads := 0\<rparr>) \<le> EndPort (exampleOptions\<lparr>Threads := 0\<rparr>)"
    by (simp add: exampleOptions_def)
  have "place s \<noteq> Panicked"
    using modulo_without_zero_guard [of exampleOptions exampleNet s] t r by blast
  moreover have "mainStep (exampleOptions\<lparr>Threads := 0\<rparr>)
      (initState (exampleOptions\<lparr>Threads := 0\<rparr>)) =
      Some ((initState (exampleOptions\<lparr>Threads := 0\<rparr>))\<lparr>
        inflight := [StartPort (exampleOptions\<lparr>Threads := 0\<rparr>)],
        dispatched := [StartPort (exampleOptions\<lparr>Threads := 0\<rparr>)], place := Panicked\<rparr>)"
    using modulo_without_zero_guard [of "exampleOptions\<lparr>Threads := 0\<rparr>" exampleNet s] z by blast
  moreover have "StartPort (exampleOptions\<lparr>Threads := 0\<rparr>) = 1"
    by (simp add: exampleOptions_def)
  ultimately show ?thesis
    using r pl by auto
qed




section \<open>Properties of the probe\<close>

subsection \<open>Trimming keeps a segment of the text\<close>

lemma hd_splitOn: "hd (splitOn sep s) = takeWhile (\<lambda>c. c \<noteq> sep) s"
  by (induction s) (auto split: list.splits simp: splitOn_nonempty)

lemma splitOn_first: "splitOn sep s ! 0 = takeWhile (\<lambda>c. c \<noteq> sep) s"
  using hd_splitOn [of sep s] splitOn_nonempty [of sep s] by (simp add: hd_conv_nth)

lemma trimLeftSpace_suffix: "\<exists>n. trimLeftSpace s = drop n s"
proof (induction s rule: trimLeftSpace.induct)
  case (1 s)
  show ?case
  proof (cases "s = []")
    case True
    then show ?thesis by (simp add: trimLeftSpace.simps)
  next
    case False
    obtain r wid where d: "decodeRune s = (r, wid)"
      by (cases "decodeRune s") auto
    show ?thesis
    proof (cases "isSpaceRune r")
      case True
      then obtain n where "trimLeftSpace (drop wid s) = drop n (drop wid s)"
        using 1 [OF False d [symmetric]] by auto
      then have "trimLeftSpace s = drop (n + wid) s"
        using False d True by (subst trimLeftSpace.simps) simp
      then show ?thesis by blast
    next
      case False
      then have "trimLeftSpace s = drop 0 s"
        using \<open>s \<noteq> []\<close> d by (subst trimLeftSpace.simps) simp
      then show ?thesis by blast
    qed
  qed
qed

lemma trimRightSpace_prefix: "\<exists>n. trimRightSpace s = take n s"
  unfolding trimRightSpace_def Let_def by blast

lemma TrimSpace_segment: "\<exists>m n. TrimSpace s = take n (drop m s)"
proof -
  obtain m where "trimLeftSpace s = drop m s"
    using trimLeftSpace_suffix by blast
  moreover obtain n where "trimRightSpace (drop m s) = take n (drop m s)"
    using trimRightSpace_prefix by blast
  ultimately show ?thesis
    unfolding TrimSpace_def by auto
qed

lemma set_TrimSpace: "set (TrimSpace s) \<subseteq> set s"
proof -
  obtain m n where "TrimSpace s = take n (drop m s)"
    using TrimSpace_segment by blast
  then show ?thesis
    by (metis set_drop_subset set_take_subset subset_trans)
qed

lemma length_TrimSpace: "length (TrimSpace s) \<le> length s"
proof -
  obtain m n where "TrimSpace s = take n (drop m s)"
    using TrimSpace_segment by blast
  then show ?thesis
    by simp
qed

subsection \<open>Trimming an ASCII text\<close>

lemma char_eq_code: "c = d \<longleftrightarrow> (of_char c :: nat) = of_char d"
  by simp

lemma asciiSpace_code: "asciiSpace c \<longleftrightarrow> (of_char c :: nat) \<in> {9, 10, 11, 12, 13, 32}"
  unfolding asciiSpace_def char_eq_code [of c] by simp

lemma isSpaceRune_ascii:
  "(of_char c :: nat) < 128 \<Longrightarrow> isSpaceRune (of_char c) \<longleftrightarrow> asciiSpace c"
  unfolding asciiSpace_code isSpaceRune_def by auto

lemma decodeRune_ascii: "(of_char c :: nat) < 128 \<Longrightarrow> decodeRune (c # cs) = (of_char c, 1)"
  by (simp add: decodeRune_def)

lemma trimLeftSpace_ascii: "isAscii s \<Longrightarrow> trimLeftSpace s = dropWhile asciiSpace s"
proof (induction s)
  case Nil
  then show ?case by (simp add: trimLeftSpace.simps)
next
  case (Cons c cs)
  then have c: "(of_char c :: nat) < 128" and cs: "isAscii cs"
    by (simp_all add: isAscii_def)
  show ?case
    using Cons.IH [OF cs] c
    by (subst trimLeftSpace.simps) (simp add: decodeRune_ascii isSpaceRune_ascii)
qed

lemma decodeLastRune_ascii:
  "(of_char x :: nat) < 128 \<Longrightarrow> decodeLastRune (xs @ [x]) = (of_char x, 1)"
  by (simp add: decodeLastRune_def Let_def)

lemma lastIndexNotSpace_append:
  "i \<le> length xs \<Longrightarrow> lastIndexNotSpace (xs @ ys) i = lastIndexNotSpace xs i"
proof (induction xs i rule: lastIndexNotSpace.induct)
  case (1 s i)
  show ?case
  proof (cases "i = 0")
    case True
    then show ?thesis by (simp add: lastIndexNotSpace.simps)
  next
    case False
    obtain r wid where d: "decodeLastRune (take i s) = (r, wid)"
      by (cases "decodeLastRune (take i s)") auto
    have t: "take i (s @ ys) = take i s"
      using "1.prems" by simp
    have unfold_long: "lastIndexNotSpace (s @ ys) i =
        (if \<not> isSpaceRune r then int (i - wid) else lastIndexNotSpace (s @ ys) (i - wid))"
      using False d by (subst lastIndexNotSpace.simps) (simp only: t, simp)
    have unfold_short: "lastIndexNotSpace s i =
        (if \<not> isSpaceRune r then int (i - wid) else lastIndexNotSpace s (i - wid))"
      using False d by (subst lastIndexNotSpace.simps) simp
    show ?thesis
    proof (cases "isSpaceRune r")
      case True
      have "lastIndexNotSpace (s @ ys) (i - wid) = lastIndexNotSpace s (i - wid)"
        using "1.IH" [OF False d [symmetric]] True "1.prems" by simp
      then show ?thesis
        using True unfold_long unfold_short by simp
    next
      case nsp: False
      then show ?thesis
        using unfold_long unfold_short by simp
    qed
  qed
qed

lemma lastIndexNotSpace_snoc:
  assumes "(of_char x :: nat) < 128"
  shows "lastIndexNotSpace (xs @ [x]) (Suc (length xs)) =
    (if asciiSpace x then lastIndexNotSpace xs (length xs) else int (length xs))"
proof -
  have "lastIndexNotSpace (xs @ [x]) (Suc (length xs)) =
      (if asciiSpace x then lastIndexNotSpace (xs @ [x]) (length xs) else int (length xs))"
    using assms
    by (subst lastIndexNotSpace.simps) (simp add: decodeLastRune_ascii isSpaceRune_ascii)
  then show ?thesis
    by (simp add: lastIndexNotSpace_append)
qed

lemma lastIndexNotSpace_ascii_range:
  "isAscii s \<Longrightarrow>
    - 1 \<le> lastIndexNotSpace s (length s) \<and> lastIndexNotSpace s (length s) < int (length s)"
proof (induction s rule: rev_induct)
  case Nil
  then show ?case by (simp add: lastIndexNotSpace.simps)
next
  case (snoc x xs)
  then have x: "(of_char x :: nat) < 128" and xs: "isAscii xs"
    by (simp_all add: isAscii_def)
  show ?case
    using snoc.IH [OF xs] lastIndexNotSpace_snoc [OF x, of xs] by auto
qed

lemma trimRightSpace_ascii_take:
  assumes "isAscii s"
  shows "trimRightSpace s = take (nat (lastIndexNotSpace s (length s) + 1)) s"
proof -
  let ?i = "lastIndexNotSpace s (length s)"
  have r: "- 1 \<le> ?i" "?i < int (length s)"
    using lastIndexNotSpace_ascii_range [OF assms] by simp_all
  have "\<not> (0 \<le> ?i \<and> 128 \<le> (of_char (s ! nat ?i) :: nat))"
  proof
    assume a: "0 \<le> ?i \<and> 128 \<le> (of_char (s ! nat ?i) :: nat)"
    then have "nat ?i < length s"
      using r by linarith
    then have "(of_char (s ! nat ?i) :: nat) < 128"
      using assms by (simp add: isAscii_def list_all_length)
    then show False
      using a by simp
  qed
  then show ?thesis
    unfolding trimRightSpace_def Let_def by (simp only: if_False)
qed

lemma trimRightSpace_ascii:
  "isAscii s \<Longrightarrow> trimRightSpace s = rev (dropWhile asciiSpace (rev s))"
proof (induction s rule: rev_induct)
  case Nil
  then show ?case
    by (simp add: trimRightSpace_ascii_take lastIndexNotSpace.simps)
next
  case (snoc x xs)
  then have x: "(of_char x :: nat) < 128" and xs: "isAscii xs"
    by (simp_all add: isAscii_def)
  show ?case
  proof (cases "asciiSpace x")
    case True
    let ?k = "lastIndexNotSpace xs (length xs)"
    have "?k < int (length xs)"
      using lastIndexNotSpace_ascii_range [OF xs] by simp
    then have "take (nat (?k + 1)) (xs @ [x]) = take (nat (?k + 1)) xs"
      by simp
    then have "trimRightSpace (xs @ [x]) = trimRightSpace xs"
      using True lastIndexNotSpace_snoc [OF x, of xs]
      by (simp add: trimRightSpace_ascii_take [OF snoc.prems] trimRightSpace_ascii_take [OF xs])
    then show ?thesis
      using True snoc.IH [OF xs] by simp
  next
    case False
    then show ?thesis
      using lastIndexNotSpace_snoc [OF x, of xs]
      by (simp add: trimRightSpace_ascii_take [OF snoc.prems])
  qed
qed

lemma isAscii_dropWhile: "isAscii s \<Longrightarrow> isAscii (dropWhile P s)"
  unfolding isAscii_def list_all_iff using set_dropWhileD by fast

lemma TrimSpace_ascii: "isAscii s \<Longrightarrow> TrimSpace s = trimAscii s"
  by (simp add: TrimSpace_def trimAscii_def trimLeftSpace_ascii trimRightSpace_ascii
      isAscii_dropWhile)

subsection \<open>Banner capture\<close>

lemma getBanner_read_ok:
  assumes "c (if port = 80 \<or> port = 443 \<or> port = 8080 then [httpHead] else []) = (bytes, None)"
  shows "fst (getBanner c port) = bannerOf (take 1024 bytes)"
  using assms
  by (simp add: getBanner_def Let_def bannerOf_def firstLine_def truncateTo_def maxLen_def
      splitOn_first splitOn_nonempty)

lemma length_truncateTo: "length (truncateTo n s) \<le> n + 3"
  by (simp add: truncateTo_def)

lemma set_truncateTo: "set (truncateTo n s) \<subseteq> set s \<union> {CHR ''.''}"
  by (auto simp: truncateTo_def dest: in_set_takeD)

lemma bannerOf_no_newline: "CHR 0x0A \<notin> set (bannerOf raw)"
proof -
  have "CHR 0x0A \<notin> set (firstLine (TrimSpace raw))"
    unfolding firstLine_def by (auto dest: set_takeWhileD)
  then have "CHR 0x0A \<notin> set (TrimSpace (firstLine (TrimSpace raw)))"
    using set_TrimSpace by blast
  then show ?thesis
    unfolding bannerOf_def using set_truncateTo [of 80 "TrimSpace (firstLine (TrimSpace raw))"]
    by auto
qed

lemma bannerOf_ascii:
  assumes "isAscii raw"
  shows "bannerOf raw = truncateTo 80 (trimAscii (firstLine (trimAscii raw)))"
proof -
  have "isAscii (trimAscii raw)"
    using assms unfolding trimAscii_def isAscii_def list_all_iff
    by (auto dest!: set_dropWhileD)
  then have "isAscii (firstLine (trimAscii raw))"
    unfolding firstLine_def isAscii_def list_all_iff by (auto dest: set_takeWhileD)
  then show ?thesis
    using assms by (simp add: bannerOf_def TrimSpace_ascii)
qed

lemma ssh_banner:
  "bannerOf (''SSH-2.0-OpenSSH_8.9'' @ [CHR 0x0D, CHR 0x0A] @ ''extra'' @ [CHR 0x0D, CHR 0x0A]) =
     ''SSH-2.0-OpenSSH_8.9''"
proof -
  have "isAscii (''SSH-2.0-OpenSSH_8.9'' @ [CHR 0x0D, CHR 0x0A] @ ''extra'' @ [CHR 0x0D, CHR 0x0A])"
    by (simp add: isAscii_def)
  then show ?thesis
    by (simp add: bannerOf_ascii trimAscii_def firstLine_def truncateTo_def asciiSpace_def)
qed

text \<open>
  Claim C7. What \<^const>\<open>getBanner\<close> makes of the bytes it has read (at most 1024): it
  trims the surrounding white space, keeps the first line, that is what precedes the first
  newline, trims that line again, and cuts the result to 80 bytes with an ellipsis
  appended when it was longer. The result has at most 83 bytes and no newline. Trimming
  keeps a segment of the text; on an ASCII text it removes exactly the leading and the
  trailing ASCII white space. The bytes \<open>SSH-2.0-OpenSSH_8.9\r\nextra\r\n\<close> give exactly
  \<open>SSH-2.0-OpenSSH_8.9\<close>.
\<close>

theorem banner_postprocessing:
  "(c (if port = 80 \<or> port = 443 \<or> port = 8080 then [httpHead] else []) = (bytes, None) \<longrightarrow>
      fst (getBanner c port) =
        truncateTo 80 (TrimSpace (firstLine (TrimSpace (take 1024 bytes))))
      \<and> length (fst (getBanner c port)) \<le> 83
      \<and> CHR 0x0A \<notin> set (fst (getBanner c port)))
   \<and> (\<exists>m n. TrimSpace s = take n (drop m s))
   \<and> (isAscii s \<longrightarrow> TrimSpace s = rev (dropWhile asciiSpace (rev (dropWhile asciiSpace s))))
   \<and> (length s \<le> 80 \<longrightarrow> truncateTo 80 s = s)
   \<and> (80 < length s \<longrightarrow> truncateTo 80 s = take 80 s @ ''...'')
   \<and> fst (getBanner (\<lambda>written. (''SSH-2.0-OpenSSH_8.9'' @ [CHR 0x0D, CHR 0x0A] @ ''extra''
          @ [CHR 0x0D, CHR 0x0A], None)) port) = ''SSH-2.0-OpenSSH_8.9''"
proof -
  have read: "fst (getBanner c port) =
        truncateTo 80 (TrimSpace (firstLine (TrimSpace (take 1024 bytes))))
      \<and> length (fst (getBanner c port)) \<le> 83
      \<and> CHR 0x0A \<notin> set (fst (getBanner c port))"
    if "c (if port = 80 \<or> port = 443 \<or> port = 8080 then [httpHead] else []) = (bytes, None)"
  proof -
    have b: "fst (getBanner c port) = bannerOf (take 1024 bytes)"
      using that by (rule getBanner_read_ok)
    have "length (bannerOf (take 1024 bytes)) \<le> 83"
      unfolding bannerOf_def
      using length_truncateTo [of 80 "TrimSpace (firstLine (TrimSpace (take 1024 bytes)))"]
      by simp
    then show ?thesis
      using b bannerOf_no_newline [of "take 1024 bytes"] by (simp add: bannerOf_def)
  qed
  define raw where "raw = ''SSH-2.0-OpenSSH_8.9'' @ [CHR 0x0D, CHR 0x0A] @ ''extra''
      @ [CHR 0x0D, CHR 0x0A]"
  have "length raw \<le> 1024"
    by (simp add: raw_def)
  then have "take 1024 raw = raw"
    by (rule take_all)
  moreover have "fst (getBanner (\<lambda>written. (raw, None)) port) = bannerOf (take 1024 raw)"
    by (rule getBanner_read_ok) simp
  moreover have "bannerOf raw = ''SSH-2.0-OpenSSH_8.9''"
    unfolding raw_def by (rule ssh_banner)
  ultimately have "fst (getBanner (\<lambda>written. (raw, None)) port) = ''SSH-2.0-OpenSSH_8.9''"
    by simp
  then have ssh: "fst (getBanner (\<lambda>written. (''SSH-2.0-OpenSSH_8.9'' @ [CHR 0x0D, CHR 0x0A]
      @ ''extra'' @ [CHR 0x0D, CHR 0x0A], None)) port) = ''SSH-2.0-OpenSSH_8.9''"
    unfolding raw_def .
  have rd: "c (if port = 80 \<or> port = 443 \<or> port = 8080 then [httpHead] else []) = (bytes, None) \<longrightarrow>
      fst (getBanner c port) =
        truncateTo 80 (TrimSpace (firstLine (TrimSpace (take 1024 bytes))))
      \<and> length (fst (getBanner c port)) \<le> 83
      \<and> CHR 0x0A \<notin> set (fst (getBanner c port))"
    using read by blast
  have seg: "\<exists>m n. TrimSpace s = take n (drop m s)"
    by (rule TrimSpace_segment)
  have tr: "isAscii s \<longrightarrow> TrimSpace s = rev (dropWhile asciiSpace (rev (dropWhile asciiSpace s)))"
    using TrimSpace_ascii [of s] by (simp add: trimAscii_def)
  have t1: "length s \<le> 80 \<longrightarrow> truncateTo 80 s = s"
    and t2: "80 < length s \<longrightarrow> truncateTo 80 s = take 80 s @ ''...''"
    by (simp_all add: truncateTo_def)
  show ?thesis
    using rd seg tr t1 t2 ssh by (intro conjI)
qed

theorem banner_postprocessing_witness:
  "length (fst (getBanner (\<lambda>written. (replicate 2000 CHR ''x'', None)) 22)) \<le> 83
   \<and> CHR 0x0A \<notin> set (fst (getBanner (\<lambda>written. (replicate 2000 CHR ''x'', None)) 22))
   \<and> TrimSpace ([CHR 0x09] @ '' 220 ready '' @ [CHR 0x0D, CHR 0x0A]) = ''220 ready''
   \<and> truncateTo 80 ''220 ready'' = ''220 ready''
   \<and> truncateTo 80 (replicate 81 CHR ''x'') = replicate 80 CHR ''x'' @ ''...''"
  using
    banner_postprocessing [of "\<lambda>written. (replicate 2000 CHR ''x'', None)" 22
      "replicate 2000 CHR ''x''" "[CHR 0x09] @ '' 220 ready '' @ [CHR 0x0D, CHR 0x0A]"]
    banner_postprocessing [of "\<lambda>written. (replicate 2000 CHR ''x'', None)" 22
      "replicate 2000 CHR ''x''" "''220 ready''"]
    banner_postprocessing [of "\<lambda>written. (replicate 2000 CHR ''x'', None)" 22
      "replicate 2000 CHR ''x''" "replicate 81 CHR ''x''"]
  by (simp add: isAscii_def asciiSpace_def)

text \<open>
  Claim C9. Banner capture never fails the probe: when the read returns an error,
  whatever it is (the expiry of the read deadline is one), the banner is empty, and a
  verbose probe of an open port still prints its open line and closes the connection.
  On the ports 80, 443 and 8080, and on no other, \<^const>\<open>getBanner\<close> writes the HTTP HEAD
  request to the connection before it reads; on every other port it reads without
  writing. The read deadline is set first, to one second.
\<close>

theorem banner_capture_never_fails:
  "(c (if port = 80 \<or> port = 443 \<or> port = 8080 then [httpHead] else []) = (bytes, Some err) \<longrightarrow>
      fst (getBanner c port) = []
      \<and> (net (Target options @ '':'' @ showInt port) (Timeout options) = Connected c
           \<and> Verbose options \<longrightarrow>
         (\<exists>openLine. scanPort net options port = ([openLine], snd (getBanner c port) @ [Close]))))
   \<and> (port = 80 \<or> port = 443 \<or> port = 8080 \<longrightarrow>
      snd (getBanner c port) = [SetReadDeadline 1000, Write httpHead, Read 1024])
   \<and> (port \<noteq> 80 \<and> port \<noteq> 443 \<and> port \<noteq> 8080 \<longrightarrow>
      snd (getBanner c port) = [SetReadDeadline 1000, Read 1024])
   \<and> httpHead = ''HEAD / HTTP/1.0'' @ [CHR 0x0D, CHR 0x0A, CHR 0x0D, CHR 0x0A]"
proof -
  have ops: "snd (getBanner c port) =
      [SetReadDeadline 1000] @
      map Write (if port = 80 \<or> port = 443 \<or> port = 8080 then [httpHead] else []) @ [Read 1024]"
    by (simp add: getBanner_def Let_def split: prod.splits option.splits)
  have err: "fst (getBanner c port) = []"
    if "c (if port = 80 \<or> port = 443 \<or> port = 8080 then [httpHead] else []) = (bytes, Some err)"
    using that by (simp add: getBanner_def Let_def)
  have probe: "\<exists>openLine. scanPort net options port = ([openLine], snd (getBanner c port) @ [Close])"
    if "fst (getBanner c port) = []"
      "net (Target options @ '':'' @ showInt port) (Timeout options) = Connected c"
      "Verbose options"
    using that by (cases "getBanner c port") (simp add: scanPort_def Let_def)
  show ?thesis
    using ops err probe by (simp add: httpHead_def)
qed

theorem banner_capture_never_fails_witness:
  "fst (getBanner (\<lambda>written. ([], Some ''i/o timeout'')) 443) = []
   \<and> snd (getBanner (\<lambda>written. ([], Some ''i/o timeout'')) 443) =
       [SetReadDeadline 1000, Write httpHead, Read 1024]
   \<and> snd (getBanner (\<lambda>written. ([], Some ''i/o timeout'')) 22) =
       [SetReadDeadline 1000, Read 1024]"
  using
    banner_capture_never_fails [of "\<lambda>written. ([], Some ''i/o timeout'')" 443 "[]"
      "''i/o timeout''" exampleNet exampleOptions]
    banner_capture_never_fails [of "\<lambda>written. ([], Some ''i/o timeout'')" 22 "[]"
      "''i/o timeout''" exampleNet exampleOptions]
  by simp

subsection \<open>Substrings and the service table\<close>

lemma HasPrefix_iff: "HasPrefix s p \<longleftrightarrow> (\<exists>suf. s = p @ suf)"
  by (induction s p rule: HasPrefix.induct) auto

lemma Contains_iff: "Contains s sub \<longleftrightarrow> (\<exists>pre suf. s = pre @ sub @ suf)"
proof (induction s)
  case Nil
  then show ?case by auto
next
  case (Cons c cs)
  show ?case
  proof
    assume "Contains (c # cs) sub"
    then consider "HasPrefix (c # cs) sub" | "Contains cs sub"
      by auto
    then show "\<exists>pre suf. c # cs = pre @ sub @ suf"
    proof cases
      case 1
      then obtain suf where "c # cs = [] @ sub @ suf"
        by (auto simp: HasPrefix_iff)
      then show ?thesis by blast
    next
      case 2
      then obtain pre suf where "cs = pre @ sub @ suf"
        using Cons.IH by blast
      then have "c # cs = (c # pre) @ sub @ suf"
        by simp
      then show ?thesis by blast
    qed
  next
    assume "\<exists>pre suf. c # cs = pre @ sub @ suf"
    then obtain pre suf where e: "c # cs = pre @ sub @ suf"
      by blast
    show "Contains (c # cs) sub"
    proof (cases pre)
      case Nil
      then have "HasPrefix (c # cs) sub"
        using e by (auto simp: HasPrefix_iff)
      then show ?thesis by simp
    next
      case (Cons d pre')
      then have "cs = pre' @ sub @ suf"
        using e by simp
      then have "Contains cs sub"
        using Cons.IH by blast
      then show ?thesis by simp
    qed
  qed
qed

lemma commonPorts_nonempty: "map_of commonPorts port = Some service \<Longrightarrow> service \<noteq> []"
  by (auto simp: commonPorts_def split: if_splits)

lemma bannerMark_not_port: "\<not> HasPrefix (bannerMark @ rest) ''Port ''"
  by (simp add: bannerMark_def)

subsection \<open>Closed, filtered and open ports\<close>

text \<open>
  What \<^const>\<open>scanPort\<close> does when the connection attempt fails. A verbose probe looks
  for two words in the text of the error: if the text contains \<open>timeout\<close> it prints the
  filtered line; otherwise, if the text contains \<open>refused\<close>, it prints the closed
  (connection refused) line; otherwise it prints the closed line with the text of the
  error. Each is the only line of the probe. A probe that is not verbose prints nothing.
  The failure does not stop the scan: the end of the probe leaves the main goroutine where
  it is, and on a network where every connection attempt fails the scan still reaches its
  completion from every state (the concurrency limit is not zero and the end port is
  below the largest 64-bit integer).
\<close>

lemma failed_probe_by_text:
  "(net (Target options @ '':'' @ showInt port) (Timeout options) = DialError err \<longrightarrow>
      (Verbose options \<and> Contains err ''timeout'' \<longrightarrow>
         scanPort net options port =
           ([''Port '' @ showInt port @ ''/tcp filtered (timeout)'' @ [CHR 0x0A]], []))
      \<and> (Verbose options \<and> \<not> Contains err ''timeout'' \<and> Contains err ''refused'' \<longrightarrow>
         scanPort net options port =
           ([''Port '' @ showInt port @ ''/tcp closed (connection refused)'' @ [CHR 0x0A]], []))
      \<and> (Verbose options \<and> \<not> Contains err ''timeout'' \<and> \<not> Contains err ''refused'' \<longrightarrow>
         scanPort net options port =
           ([''Port '' @ showInt port @ ''/tcp closed ('' @ err @ '')'' @ [CHR 0x0A]], []))
      \<and> (\<not> Verbose options \<longrightarrow> scanPort net options port = ([], [])))
   \<and> (Contains err sub \<longleftrightarrow> (\<exists>pre suf. err = pre @ sub @ suf))
   \<and> (\<forall>s s'. probeEnd net options port s = Some s' \<longrightarrow> place s' = place s)
   \<and> (Threads options \<noteq> 0 \<and> EndPort options < maxInt64
        \<and> reachable (\<lambda>address timeout. DialError (errors address)) options s0 \<longrightarrow>
        (\<exists>es s'. run (\<lambda>address timeout. DialError (errors address)) options es s0 = Some s'
           \<and> place s' = Done))"
proof -
  have classify:
    "net (Target options @ '':'' @ showInt port) (Timeout options) = DialError err \<longrightarrow>
      (Verbose options \<and> Contains err ''timeout'' \<longrightarrow>
         scanPort net options port =
           ([''Port '' @ showInt port @ ''/tcp filtered (timeout)'' @ [CHR 0x0A]], []))
      \<and> (Verbose options \<and> \<not> Contains err ''timeout'' \<and> Contains err ''refused'' \<longrightarrow>
         scanPort net options port =
           ([''Port '' @ showInt port @ ''/tcp closed (connection refused)'' @ [CHR 0x0A]], []))
      \<and> (Verbose options \<and> \<not> Contains err ''timeout'' \<and> \<not> Contains err ''refused'' \<longrightarrow>
         scanPort net options port =
           ([''Port '' @ showInt port @ ''/tcp closed ('' @ err @ '')'' @ [CHR 0x0A]], []))
      \<and> (\<not> Verbose options \<longrightarrow> scanPort net options port = ([], []))"
    by (simp add: scanPort_def Let_def)
  have sub: "Contains err sub \<longleftrightarrow> (\<exists>pre suf. err = pre @ sub @ suf)"
    by (rule Contains_iff)
  have stay: "\<forall>s s'. probeEnd net options port s = Some s' \<longrightarrow> place s' = place s"
    using probeEnd_place by blast
  have complete: "Threads options \<noteq> 0 \<and> EndPort options < maxInt64
        \<and> reachable (\<lambda>address timeout. DialError (errors address)) options s0 \<longrightarrow>
        (\<exists>es s'. run (\<lambda>address timeout. DialError (errors address)) options es s0 = Some s'
           \<and> place s' = Done)"
    using completion_reachable by blast
  show ?thesis
    using classify sub stay complete by (intro conjI)
qed

lemma example_addresses:
  "Target exampleOptions @ '':'' @ showInt 22 = ''localhost:22''"
  "Target exampleOptions @ '':'' @ showInt 23 = ''localhost:23''"
  "Target exampleOptions @ '':'' @ showInt 24 = ''localhost:24''"
  "Target exampleOptions @ '':'' @ showInt 25 = ''localhost:25''"
  "Target exampleOptions @ '':'' @ showInt 8080 = ''localhost:8080''"
  by (simp_all add: exampleOptions_def showInt_def showNat.simps digitChar_def)

lemma failed_probe_examples:
  "scanPort exampleNet (exampleOptions\<lparr>Verbose := True\<rparr>) 23 =
     ([''Port '' @ showInt 23 @ ''/tcp filtered (timeout)'' @ [CHR 0x0A]], [])
   \<and> scanPort exampleNet (exampleOptions\<lparr>Verbose := True\<rparr>) 25 =
     ([''Port '' @ showInt 25 @ ''/tcp closed (connection refused)'' @ [CHR 0x0A]], [])
   \<and> scanPort exampleNet (exampleOptions\<lparr>Verbose := True\<rparr>) 24 =
     ([''Port '' @ showInt 24
        @ ''/tcp closed (dial tcp 127.0.0.1:24: connect: connection timed out)'' @ [CHR 0x0A]], [])
   \<and> scanPort exampleNet exampleOptions 23 = ([], [])"
  using
    failed_probe_by_text [of exampleNet "exampleOptions\<lparr>Verbose := True\<rparr>" 23
      "''dial tcp 127.0.0.1:23: i/o timeout''"]
    failed_probe_by_text [of exampleNet "exampleOptions\<lparr>Verbose := True\<rparr>" 25
      "''dial tcp 127.0.0.1: connect: connection refused''"]
    failed_probe_by_text [of exampleNet "exampleOptions\<lparr>Verbose := True\<rparr>" 24
      "''dial tcp 127.0.0.1:24: connect: connection timed out''"]
    failed_probe_by_text [of exampleNet exampleOptions 23
      "''dial tcp 127.0.0.1:23: i/o timeout''"]
    example_addresses
  by (simp add: exampleNet_def exampleOptions_def)

text \<open>
  Claim C6, that a failed connection attempt whose error text indicates a timeout is
  reported as filtered, does not hold of the source for every such text. The source
  looks for the word \<open>timeout\<close>. When the timeout of the dialer expires the text ends in
  \<open>i/o timeout\<close> and the verbose probe prints the filtered line, as on port 23 of the
  example. When the operating system gives up the connection attempt first (with
  \<^verbatim>\<open>-timeout 0\<close> the dialer has no timeout of its own) the text ends in
  \<open>connection timed out\<close>, which does not contain that word: on port 24 of the example
  the verbose probe prints the closed line with the text of the error, and not the
  filtered line.
\<close>

theorem timed_out_connect_printed_closed:
  "exampleNet (Target exampleOptions @ '':'' @ showInt 24) (Timeout exampleOptions) =
     DialError ''dial tcp 127.0.0.1:24: connect: connection timed out''
   \<and> Contains ''dial tcp 127.0.0.1:24: connect: connection timed out'' ''timed out''
   \<and> \<not> Contains ''dial tcp 127.0.0.1:24: connect: connection timed out'' ''timeout''
   \<and> scanPort exampleNet (exampleOptions\<lparr>Verbose := True\<rparr>) 24 =
       ([''Port 24/tcp closed (dial tcp 127.0.0.1:24: connect: connection timed out)''
           @ [CHR 0x0A]], [])
   \<and> scanPort exampleNet (exampleOptions\<lparr>Verbose := True\<rparr>) 24 \<noteq>
       ([''Port 24/tcp filtered (timeout)'' @ [CHR 0x0A]], [])
   \<and> scanPort exampleNet (exampleOptions\<lparr>Verbose := True\<rparr>) 23 =
       ([''Port 23/tcp filtered (timeout)'' @ [CHR 0x0A]], [])"
proof -
  have dial: "exampleNet (Target exampleOptions @ '':'' @ showInt 24) (Timeout exampleOptions) =
      DialError ''dial tcp 127.0.0.1:24: connect: connection timed out''"
    unfolding example_addresses by (simp add: exampleNet_def)
  have words: "Contains ''dial tcp 127.0.0.1:24: connect: connection timed out'' ''timed out''"
    "\<not> Contains ''dial tcp 127.0.0.1:24: connect: connection timed out'' ''timeout''"
    by simp_all
  have shown: "showInt 24 = ''24''" "showInt 23 = ''23''"
    by (simp_all add: showInt_def showNat.simps digitChar_def)
  have closed: "scanPort exampleNet (exampleOptions\<lparr>Verbose := True\<rparr>) 24 =
      ([''Port 24/tcp closed (dial tcp 127.0.0.1:24: connect: connection timed out)''
          @ [CHR 0x0A]], [])"
    using failed_probe_examples by (simp add: shown)
  have filtered: "scanPort exampleNet (exampleOptions\<lparr>Verbose := True\<rparr>) 23 =
      ([''Port 23/tcp filtered (timeout)'' @ [CHR 0x0A]], [])"
    using failed_probe_examples by (simp add: shown)
  have differ: "scanPort exampleNet (exampleOptions\<lparr>Verbose := True\<rparr>) 24 \<noteq>
      ([''Port 24/tcp filtered (timeout)'' @ [CHR 0x0A]], [])"
    unfolding closed by simp
  show ?thesis
    using dial words closed differ filtered by (intro conjI)
qed

text \<open>
  Claim C8. When the connection attempt to a port succeeds, the probe prints exactly one
  open line, verbose or not, and it is the first line it prints: with the service name
  when the service table has an entry for the port, and without any annotation when it
  has none. No entry of the table is empty, so the annotation is never printed empty;
  port 22 is annotated \<open>SSH\<close>. The only other line a probe of an open port can print is
  the banner line of a verbose probe, which is not a port line.
\<close>

theorem open_port_line:
  "(net (Target options @ '':'' @ showInt port) (Timeout options) = Connected c \<longrightarrow>
      (\<exists>rest ops. scanPort net options port =
          ((case map_of commonPorts port of
              Some service \<Rightarrow>
                ''Port '' @ showInt port @ ''/tcp open - '' @ service @ [CHR 0x0A]
            | None \<Rightarrow> ''Port '' @ showInt port @ ''/tcp open'' @ [CHR 0x0A]) # rest, ops)
        \<and> (rest = [] \<or>
            Verbose options \<and>
            (\<exists>banner. banner \<noteq> [] \<and> rest = [bannerMark @ banner @ [CHR 0x0A]]))
        \<and> length (filter (\<lambda>line. HasPrefix line ''Port '') (fst (scanPort net options port))) = 1))
   \<and> (\<forall>service. map_of commonPorts port = Some service \<longrightarrow> service \<noteq> [])
   \<and> map_of commonPorts 22 = Some ''SSH''"
proof -
  have table: "\<forall>service. map_of commonPorts port = Some service \<longrightarrow> service \<noteq> []"
    using commonPorts_nonempty by blast
  have ssh: "map_of commonPorts 22 = Some ''SSH''"
    by (simp add: commonPorts_def)
  let ?line = "case map_of commonPorts port of
      Some service \<Rightarrow> ''Port '' @ showInt port @ ''/tcp open - '' @ service @ [CHR 0x0A]
    | None \<Rightarrow> ''Port '' @ showInt port @ ''/tcp open'' @ [CHR 0x0A]"
  have line: "(if getServiceName port \<noteq> []
       then ''Port '' @ showInt port @ ''/tcp open - '' @ getServiceName port @ [CHR 0x0A]
       else ''Port '' @ showInt port @ ''/tcp open'' @ [CHR 0x0A]) = ?line"
    using table by (auto simp: getServiceName_def split: option.splits)
  have port_line: "HasPrefix ?line ''Port ''"
    by (simp split: option.splits)
  have "\<exists>rest ops. scanPort net options port = (?line # rest, ops)
      \<and> (rest = [] \<or>
          Verbose options \<and> (\<exists>banner. banner \<noteq> [] \<and> rest = [bannerMark @ banner @ [CHR 0x0A]]))
      \<and> length (filter (\<lambda>line. HasPrefix line ''Port '') (fst (scanPort net options port))) = 1"
    if conn: "net (Target options @ '':'' @ showInt port) (Timeout options) = Connected c"
  proof -
    obtain banner ops where g: "getBanner c port = (banner, ops)"
      by (cases "getBanner c port") auto
    have s: "scanPort net options port =
        (if Verbose options then
           (if banner \<noteq> [] then ([?line, bannerMark @ banner @ [CHR 0x0A]], ops @ [Close])
            else ([?line], ops @ [Close]))
         else ([?line], [Close]))"
      using conn g line by (simp add: scanPort_def Let_def)
    show ?thesis
      unfolding s using port_line bannerMark_not_port [of "banner @ [CHR 0x0A]"] by auto
  qed
  then show ?thesis
    using table ssh by blast
qed

theorem open_port_line_witness:
  "scanPort exampleNet exampleOptions 22 =
     ([''Port '' @ showInt 22 @ ''/tcp open - SSH'' @ [CHR 0x0A]], [Close])
   \<and> map_of commonPorts 22 = Some ''SSH''"
proof -
  have c: "exampleNet (Target exampleOptions @ '':'' @ showInt 22) (Timeout exampleOptions) =
      Connected (\<lambda>written. (''SSH-2.0-OpenSSH_8.9'' @ [CHR 0x0D, CHR 0x0A] @ ''extra''
        @ [CHR 0x0D, CHR 0x0A], None))"
    unfolding example_addresses by (simp add: exampleNet_def)
  have v: "\<not> Verbose exampleOptions"
    by (simp add: exampleOptions_def)
  note th = open_port_line [of exampleNet exampleOptions 22]
  from th have ssh: "map_of commonPorts 22 = Some ''SSH''"
    by blast
  from th c obtain rest ops where
    "scanPort exampleNet exampleOptions 22 =
      ((case map_of commonPorts 22 of
          Some service \<Rightarrow> ''Port '' @ showInt 22 @ ''/tcp open - '' @ service @ [CHR 0x0A]
        | None \<Rightarrow> ''Port '' @ showInt 22 @ ''/tcp open'' @ [CHR 0x0A]) # rest, ops)"
    "rest = [] \<or> Verbose exampleOptions \<and>
      (\<exists>banner. banner \<noteq> [] \<and> rest = [bannerMark @ banner @ [CHR 0x0A]])"
    by blast
  then have "fst (scanPort exampleNet exampleOptions 22) =
      [''Port '' @ showInt 22 @ ''/tcp open - SSH'' @ [CHR 0x0A]]"
    using v ssh by simp
  moreover have "snd (scanPort exampleNet exampleOptions 22) = [Close]"
    using c v by (simp add: scanPort_def Let_def)
  ultimately show ?thesis
    using ssh by (simp add: prod_eq_iff)
qed

end
